theory Spec2Isabelle
  imports Main "HOL-Library.Word" "HOL-Library.AList" "HOL-Library.Multiset"
begin

section \<open>Coin selection and transaction crafting of the bitcoind connector\<close>

text \<open>
  A shallow embedding of \<^verbatim>\<open>bitcoind/tx.go\<close>: \<^verbatim>\<open>selectInputs\<close>,
  \<^verbatim>\<open>coinSelect\<close>, \<^verbatim>\<open>syncUnspent\<close> and \<^verbatim>\<open>craftTransaction\<close>.
\<close>

subsection \<open>Amounts\<close>

text \<open>
  \<^verbatim>\<open>btcutil.Amount\<close> is Go's \<^verbatim>\<open>int64\<close>: a 64-bit word whose additions and
  subtractions wrap and whose comparisons are signed (\<open>word_sle\<close>, \<open>word_sless\<close>).
  The fee rate is a \<^verbatim>\<open>uint64\<close>, the same words read unsigned.
\<close>

type_synonym Amount = "64 word"

text \<open>
  The node reports an amount as a \<^verbatim>\<open>float64\<close>. Floating-point arithmetic is not
  modelled: a finite float is represented by the number of satoshis that the library
  function \<^verbatim>\<open>btcutil.NewAmount\<close> rounds it to (\<^verbatim>\<open>round(f * 1e8)\<close> as an
  \<^verbatim>\<open>int64\<close>); the three non-finite floats are values of their own. Not every
  \<^verbatim>\<open>int64\<close> is the rounding of a float: the amounts of the examples are integers
  that a \<^verbatim>\<open>float64\<close> holds exactly (below \<open>2 ^ 53\<close> in size, or a multiple of
  1024).
\<close>

datatype float64 = Finite Amount | NaN | PosInf | NegInf

text \<open>
  Errors. \<open>ErrInvalidAmount\<close> is the error of \<^verbatim>\<open>btcutil.NewAmount\<close>
  (``invalid bitcoin amount''), \<open>ErrInsufficientFunds\<close> the struct of the source with
  its fields \<^verbatim>\<open>amountNeeded\<close> and \<^verbatim>\<open>amountAvailable\<close>, \<open>RpcError\<close> an error
  answered by the node client, \<open>HashError\<close> the error of
  \<^verbatim>\<open>chainhash.NewHashFromStr\<close>, and \<open>Errorf\<close> a call of \<^verbatim>\<open>errors.Errorf\<close>
  with its format string and the errors passed as arguments.
\<close>

datatype error =
    ErrInvalidAmount
  | ErrInsufficientFunds Amount Amount
  | RpcError string
  | HashError string
  | Errorf string "error list"

definition NewAmount :: "float64 \<Rightarrow> error + Amount" where
  "NewAmount f = (case f of Finite s \<Rightarrow> Inr s | NaN \<Rightarrow> Inl ErrInvalidAmount
     | PosInf \<Rightarrow> Inl ErrInvalidAmount | NegInf \<Rightarrow> Inl ErrInvalidAmount)"

subsection \<open>Unspent outputs\<close>

text \<open>
  Modelled from the spec: \<^verbatim>\<open>btcjson.ListUnspentResult\<close> is declared in a package of
  this repository that is not among the sources. Section 3 of the specification gives an
  unspent output a transaction id, an output index, an amount and a confirmation count;
  the field names are those the source reads (\<^verbatim>\<open>TxID\<close>, \<^verbatim>\<open>Vout\<close>,
  \<^verbatim>\<open>Amount\<close>).
\<close>

record ListUnspentResult =
  TxID :: string
  Vout :: "32 word"
  Amount :: float64
  Confirmations :: int

text \<open>
  The unspent set is a Go map from transaction id to output. Its entries are held in an
  association list with distinct keys. The order of that list is not the order of
  iteration: Go leaves the order of a \<^verbatim>\<open>range\<close> over a map unspecified, and the
  runtime chooses it anew for every \<^verbatim>\<open>range\<close> statement that it runs.
\<close>

type_synonym UnspentMap = "(string \<times> ListUnspentResult) list"

text \<open>
  The order of one \<^verbatim>\<open>range\<close> is given by the choices of the runtime, a list of
  numbers: each number picks, among the entries not yet visited, the entry visited
  next (by its index, modulo the number of such entries); when the choices run out,
  the entries left are visited as the list has them. Every order of the entries is the
  order of some list of choices, and nothing else is (lemmas \<open>range_order_any\<close> and
  \<open>mset_range_order\<close>).
\<close>

fun range_order :: "nat list \<Rightarrow> 'a list \<Rightarrow> 'a list" where
  "range_order choices [] = []"
| "range_order [] (x # xs) = x # xs"
| "range_order (c # choices) (x # xs) =
     (let i = c mod length (x # xs)
      in (x # xs) ! i # range_order choices (take i (x # xs) @ drop (Suc i) (x # xs)))"

subsection \<open>selectInputs\<close>

text \<open>
  The loop of \<^verbatim>\<open>selectInputs\<close> over the entries still to visit, in the order of
  the visit, with the slice \<^verbatim>\<open>inputs\<close> and the running sum
  \<^verbatim>\<open>satSelected\<close> as accumulators.
\<close>

fun selectInputs_loop ::
  "Amount \<Rightarrow> UnspentMap \<Rightarrow> ListUnspentResult list \<Rightarrow> Amount
    \<Rightarrow> error + (Amount \<times> ListUnspentResult list)" where
  "selectInputs_loop amt [] inputs satSelected =
     Inl (ErrInsufficientFunds amt satSelected)"
| "selectInputs_loop amt ((k, input) # rest) inputs satSelected =
     (case NewAmount (Amount input) of
        Inl err \<Rightarrow> Inl err
      | Inr amount \<Rightarrow>
          (let inputs' = inputs @ [input];
               satSelected' = satSelected + amount
           in if word_sle amt satSelected' then Inr (satSelected', inputs')
              else selectInputs_loop amt rest inputs' satSelected'))"

text \<open>
  \<^verbatim>\<open>selectInputs\<close> ranges over the map once; \<open>choices\<close> are the choices of the
  runtime for that \<^verbatim>\<open>range\<close>.
\<close>

definition selectInputs ::
  "nat list \<Rightarrow> Amount \<Rightarrow> UnspentMap \<Rightarrow> error + (Amount \<times> ListUnspentResult list)" where
  "selectInputs choices amt inputsMap =
     selectInputs_loop amt (range_order choices inputsMap) [] 0"

subsection \<open>The weight estimator\<close>

text \<open>
  \<^verbatim>\<open>TxWeightEstimator\<close> is declared in a file of this repository that is not among
  the sources, so \<^verbatim>\<open>coinSelect\<close> takes it as a parameter: the zero value of the
  struct, the two methods that add a pay-to-public-key-hash input or output, and
  \<^verbatim>\<open>Weight\<close>, which returns a Go \<^verbatim>\<open>int\<close>.
\<close>

record 'e TxWeightEstimator =
  twe_zero :: 'e
  AddP2PKHInput :: "'e \<Rightarrow> 'e"
  AddP2PKHOutput :: "'e \<Rightarrow> 'e"
  Weight :: "'e \<Rightarrow> int"

text \<open>
  Modelled from the spec: the estimator of section 4.2, which accumulates a weight total
  to which each input contributes a fixed constant and each output contributes a fixed
  constant. The two constants are not given by the specification and are parameters.
\<close>

definition spec_estimator :: "int \<Rightarrow> int \<Rightarrow> int TxWeightEstimator" where
  "spec_estimator inputWeight outputWeight =
     \<lparr> twe_zero = 0,
       AddP2PKHInput = (\<lambda>w. w + inputWeight),
       AddP2PKHOutput = (\<lambda>w. w + outputWeight),
       Weight = (\<lambda>w. w) \<rparr>"

text \<open>
  The estimate that \<^verbatim>\<open>coinSelect\<close> builds for \<open>n\<close> selected outputs: \<open>n\<close> calls of
  \<^verbatim>\<open>AddP2PKHInput\<close> on the zero value, then two calls of \<^verbatim>\<open>AddP2PKHOutput\<close>
  (the destination and the assumed change output), then \<^verbatim>\<open>Weight\<close>.
\<close>

definition weightEstimate :: "'e TxWeightEstimator \<Rightarrow> nat \<Rightarrow> int" where
  "weightEstimate twe n =
     Weight twe (AddP2PKHOutput twe (AddP2PKHOutput twe
       ((AddP2PKHInput twe ^^ n) (twe_zero twe))))"

text \<open>
  \<^verbatim>\<open>btcutil.Amount(uint64(weightEstimate.Weight()) * feeRatePerWeight)\<close>: the
  product is taken in \<^verbatim>\<open>uint64\<close>, modulo \<open>2 ^ 64\<close>, and its bits are read as an
  \<^verbatim>\<open>int64\<close>.
\<close>

definition requiredFee :: "'e TxWeightEstimator \<Rightarrow> 64 word \<Rightarrow> nat \<Rightarrow> Amount" where
  "requiredFee twe feeRatePerWeight n = word_of_int (weightEstimate twe n) * feeRatePerWeight"

subsection \<open>coinSelect\<close>

text \<open>
  The \<^verbatim>\<open>for\<close> loop of \<^verbatim>\<open>coinSelect\<close>, with \<^verbatim>\<open>amtNeeded\<close> as the loop variable.
  The loop has no bound of its own, so the function is partial: \<open>None\<close> is a loop that
  never returns, \<open>Some (Inl err)\<close> a returned error and
  \<open>Some (Inr (selectedUtxos, changeAmt, requiredFee))\<close> a returned selection.
  Every round of the loop calls \<^verbatim>\<open>selectInputs\<close>, which ranges over the map in an
  order of its own: \<open>orders round\<close> are the choices of the runtime in the round
  number \<open>round\<close>, counted from 0.
\<close>

partial_function (option) coinSelect_loop ::
  "'e TxWeightEstimator \<Rightarrow> (nat \<Rightarrow> nat list) \<Rightarrow> 64 word \<Rightarrow> Amount \<Rightarrow> UnspentMap
    \<Rightarrow> nat \<Rightarrow> Amount
    \<Rightarrow> (error + (ListUnspentResult list \<times> Amount \<times> Amount)) option" where
  "coinSelect_loop twe orders feeRatePerWeight amt unspent round amtNeeded =
     (case selectInputs (orders round) amtNeeded unspent of
        Inl err \<Rightarrow> Some (Inl err)
      | Inr (totalSat, selectedUtxos) \<Rightarrow>
          (let overShootAmt = totalSat - amt;
               fee = requiredFee twe feeRatePerWeight (length selectedUtxos)
           in if word_sless overShootAmt fee
              then coinSelect_loop twe orders feeRatePerWeight amt unspent (Suc round)
                     (amt + fee)
              else Some (Inr (selectedUtxos, overShootAmt - fee, fee))))"

definition coinSelect ::
  "'e TxWeightEstimator \<Rightarrow> (nat \<Rightarrow> nat list) \<Rightarrow> 64 word \<Rightarrow> Amount \<Rightarrow> UnspentMap
    \<Rightarrow> (error + (ListUnspentResult list \<times> Amount \<times> Amount)) option" where
  "coinSelect twe orders feeRatePerWeight amt unspent =
     coinSelect_loop twe orders feeRatePerWeight amt unspent 0 amt"

subsection \<open>The node client\<close>

text \<open>
  The node is reached through \<^verbatim>\<open>c.client\<close>, an RPC client that is not part of
  the repository. It is a parameter: the node has a state of some type \<open>'n\<close>, and each
  of the four calls that the source makes takes the arguments of the call and the state
  and answers with a result, or an error, and the next state.
  \<^verbatim>\<open>chainhash.NewHashFromStr\<close>, a library function, is a parameter as well.

  \<^verbatim>\<open>btcutil.Address\<close> is an interface of a library. The source does not look into
  an address: it uses addresses as the keys of the map of outputs and hands them to
  the client. The type \<open>'a\<close> of these interface values is a parameter, and equality on
  \<open>'a\<close> is the equality of Go on interface values, by which the map tells its keys
  apart: two addresses are one key when they are the same value (for the pointer types
  that implement the interface, the same object), whatever text they encode to.
\<close>

type_synonym Hash = string

datatype OutPoint = OutPoint Hash "32 word"

datatype TransactionInput = TransactionInput string "32 word"

record ('n, 'a, 'tx) Client =
  LockUnspent :: "bool \<Rightarrow> OutPoint list \<Rightarrow> 'n \<Rightarrow> error option \<times> 'n"
  ListUnspentMinMax :: "int \<Rightarrow> int \<Rightarrow> 'n \<Rightarrow> (error + ListUnspentResult list) \<times> 'n"
  GetNewAddress :: "string \<Rightarrow> 'n \<Rightarrow> (error + 'a) \<times> 'n"
  CreateRawTransaction ::
    "TransactionInput list \<Rightarrow> ('a \<times> Amount) list \<Rightarrow> int \<Rightarrow> 'n \<Rightarrow> (error + 'tx) \<times> 'n"

text \<open>The calls made to the node, in the order they are made, are logged.\<close>

datatype 'a rpc =
    CallLockUnspent bool "OutPoint list"
  | CallListUnspentMinMax int int
  | CallGetNewAddress string
  | CallCreateRawTransaction "TransactionInput list" "('a \<times> Amount) list" int

subsection \<open>The connector\<close>

text \<open>
  Modelled from the spec: the \<^verbatim>\<open>Connector\<close> struct is declared in a file of this
  repository that is not among the sources. Of its fields the functions of
  \<^verbatim>\<open>tx.go\<close> use the client (here the state \<open>node\<close> of the node behind it), the
  cache \<^verbatim>\<open>unspent\<close> (a map that may be \<^verbatim>\<open>nil\<close>, here \<open>None\<close>), the
  configured \<^verbatim>\<open>MinConfirmations\<close>, and the two locks \<^verbatim>\<open>unspentSyncMtx\<close> and
  \<^verbatim>\<open>coinSelectMtx\<close>, which sections 4.1 and 5 of the specification describe as
  exclusive locks (mutexes). A mutex is modelled by whether it is held. The field
  \<open>rpcs\<close> is the log of the calls made to the node; it is not a field of the source.
\<close>

record ('n, 'a) Connector =
  node :: 'n
  unspent :: "UnspentMap option"
  MinConfirmations :: int
  unspentSyncMtx :: bool
  coinSelectMtx :: bool
  rpcs :: "'a rpc list"

text \<open>
  How a call of a Go function ends: it returns a value; or it panics; or the runtime
  stops the process with a fatal error (\<^verbatim>\<open>Unlock\<close> of a mutex that is not held:
  ``sync: unlock of unlocked mutex''); or it never returns (\<^verbatim>\<open>Lock\<close> of a mutex
  that stays held, or a loop that does not end).
\<close>

datatype 'a outcome = Returns 'a | Panics | Fatal | NeverReturns

definition andThen ::
  "'a outcome \<times> 's \<Rightarrow> ('a \<Rightarrow> 's \<Rightarrow> 'b outcome \<times> 's) \<Rightarrow> 'b outcome \<times> 's" where
  "andThen r f = (case r of
       (Returns a, s) \<Rightarrow> f a s
     | (Panics, s) \<Rightarrow> (Panics, s)
     | (Fatal, s) \<Rightarrow> (Fatal, s)
     | (NeverReturns, s) \<Rightarrow> (NeverReturns, s))"

definition Lock_unspentSyncMtx :: "('n, 'a) Connector \<Rightarrow> unit outcome \<times> ('n, 'a) Connector" where
  "Lock_unspentSyncMtx c =
     (if unspentSyncMtx c then (NeverReturns, c)
      else (Returns (), c\<lparr>unspentSyncMtx := True\<rparr>))"

definition Unlock_unspentSyncMtx :: "('n, 'a) Connector \<Rightarrow> unit outcome \<times> ('n, 'a) Connector" where
  "Unlock_unspentSyncMtx c =
     (if unspentSyncMtx c then (Returns (), c\<lparr>unspentSyncMtx := False\<rparr>)
      else (Fatal, c))"

definition Lock_coinSelectMtx :: "('n, 'a) Connector \<Rightarrow> unit outcome \<times> ('n, 'a) Connector" where
  "Lock_coinSelectMtx c =
     (if coinSelectMtx c then (NeverReturns, c)
      else (Returns (), c\<lparr>coinSelectMtx := True\<rparr>))"

definition Unlock_coinSelectMtx :: "('n, 'a) Connector \<Rightarrow> unit outcome \<times> ('n, 'a) Connector" where
  "Unlock_coinSelectMtx c =
     (if coinSelectMtx c then (Returns (), c\<lparr>coinSelectMtx := False\<rparr>)
      else (Fatal, c))"

text \<open>The four calls: the node answers, its state advances and the call is logged.\<close>

definition call_LockUnspent ::
  "('n, 'a, 'tx) Client \<Rightarrow> bool \<Rightarrow> OutPoint list \<Rightarrow> ('n, 'a) Connector
    \<Rightarrow> error option \<times> ('n, 'a) Connector" where
  "call_LockUnspent cl unlock ops c =
     (case LockUnspent cl unlock ops (node c) of
        (r, n') \<Rightarrow> (r, c\<lparr>node := n', rpcs := rpcs c @ [CallLockUnspent unlock ops]\<rparr>))"

definition call_ListUnspentMinMax ::
  "('n, 'a, 'tx) Client \<Rightarrow> int \<Rightarrow> int \<Rightarrow> ('n, 'a) Connector
    \<Rightarrow> (error + ListUnspentResult list) \<times> ('n, 'a) Connector" where
  "call_ListUnspentMinMax cl minConf maxConf c =
     (case ListUnspentMinMax cl minConf maxConf (node c) of
        (r, n') \<Rightarrow>
          (r, c\<lparr>node := n', rpcs := rpcs c @ [CallListUnspentMinMax minConf maxConf]\<rparr>))"

definition call_GetNewAddress ::
  "('n, 'a, 'tx) Client \<Rightarrow> string \<Rightarrow> ('n, 'a) Connector \<Rightarrow> (error + 'a) \<times> ('n, 'a) Connector" where
  "call_GetNewAddress cl account c =
     (case GetNewAddress cl account (node c) of
        (r, n') \<Rightarrow> (r, c\<lparr>node := n', rpcs := rpcs c @ [CallGetNewAddress account]\<rparr>))"

definition call_CreateRawTransaction ::
  "('n, 'a, 'tx) Client \<Rightarrow> TransactionInput list \<Rightarrow> ('a \<times> Amount) list \<Rightarrow> int
    \<Rightarrow> ('n, 'a) Connector \<Rightarrow> (error + 'tx) \<times> ('n, 'a) Connector" where
  "call_CreateRawTransaction cl inputs outputs lockTime c =
     (case CreateRawTransaction cl inputs outputs lockTime (node c) of
        (r, n') \<Rightarrow>
          (r, c\<lparr>node := n',
                rpcs := rpcs c @ [CallCreateRawTransaction inputs outputs lockTime]\<rparr>))"

subsection \<open>syncUnspent\<close>

definition finiteAmount :: "ListUnspentResult \<Rightarrow> bool" where
  "finiteAmount u = (case Amount u of Finite s \<Rightarrow> True | NaN \<Rightarrow> False
     | PosInf \<Rightarrow> False | NegInf \<Rightarrow> False)"

text \<open>
  The loop of \<^verbatim>\<open>syncUnspent\<close> over the outputs the node listed, filling the new
  map. The decimal total that the loop adds up is only written to the log and is not
  modelled, but for one effect: the library function \<^verbatim>\<open>decimal.NewFromFloat\<close>
  panics on a float that is not finite, after the entry has been stored. The result is
  the map and whether the loop ran to its end.
\<close>

fun syncUnspent_loop :: "ListUnspentResult list \<Rightarrow> UnspentMap \<Rightarrow> bool \<times> UnspentMap" where
  "syncUnspent_loop [] m = (True, m)"
| "syncUnspent_loop (u # us) m =
     (let m' = AList.update (TxID u) u m
      in if finiteAmount u then syncUnspent_loop us m' else (False, m'))"

text \<open>
  \<^verbatim>\<open>syncUnspent\<close> holds \<^verbatim>\<open>unspentSyncMtx\<close> from its first line to its return
  (\<^verbatim>\<open>defer\<close>, which also runs when the function panics). The cache is assigned the
  new, empty map before the loop fills it.
\<close>

definition syncUnspent ::
  "('n, 'a, 'tx) Client \<Rightarrow> ('n, 'a) Connector \<Rightarrow> error option outcome \<times> ('n, 'a) Connector" where
  "syncUnspent cl c =
     andThen (Lock_unspentSyncMtx c) (\<lambda>_ c1.
       let minConf = MinConfirmations c1;
           maxConf = 2147483647
       in case call_ListUnspentMinMax cl minConf maxConf c1 of
            (Inl err, c2) \<Rightarrow>
              (Returns (Some (Errorf ''unable to list unspent: %v'' [])),
               c2\<lparr>unspentSyncMtx := False\<rparr>)
          | (Inr unspentList, c2) \<Rightarrow>
              (case syncUnspent_loop unspentList [] of
                 (True, m) \<Rightarrow>
                   (Returns None, c2\<lparr>unspent := Some m, unspentSyncMtx := False\<rparr>)
               | (False, m) \<Rightarrow>
                   (Panics, c2\<lparr>unspent := Some m, unspentSyncMtx := False\<rparr>)))"

subsection \<open>craftTransaction\<close>

text \<open>
  The function is given from its last lines to its first. Lines 196 to 202: under
  \<^verbatim>\<open>unspentSyncMtx\<close>, the selected outputs are deleted from the cache by their
  transaction id, and the transaction and the fee are returned.
\<close>

definition craft_remove ::
  "ListUnspentResult list \<Rightarrow> 'tx \<Rightarrow> Amount \<Rightarrow> ('n, 'a) Connector
    \<Rightarrow> (error + 'tx \<times> Amount) outcome \<times> ('n, 'a) Connector" where
  "craft_remove selectedInputs tx fee c =
     andThen (Lock_unspentSyncMtx c) (\<lambda>_ c1.
       let c2 = c1\<lparr>unspent :=
                  map_option (fold (\<lambda>input m. AList.delete (TxID input) m) selectedInputs)
                    (unspent c1)\<rparr>
       in andThen (Unlock_unspentSyncMtx c2) (\<lambda>_ c3. (Returns (Inr (tx, fee)), c3)))"

text \<open>
  Lines 176 to 194: the map of outputs holds the destination; when \<^verbatim>\<open>changeAmt\<close>
  is not zero, a new address is asked of the node and stored in the map with the
  change; the node then assembles the raw transaction with lock time 0. The map of
  outputs is an association list keyed by the interface values of the addresses.
\<close>

definition craft_assemble ::
  "('n, 'a, 'tx) Client \<Rightarrow> Amount \<Rightarrow> 'a \<Rightarrow> ListUnspentResult list \<Rightarrow> Amount \<Rightarrow> Amount
    \<Rightarrow> TransactionInput list \<Rightarrow> ('n, 'a) Connector
    \<Rightarrow> (error + 'tx \<times> Amount) outcome \<times> ('n, 'a) Connector" where
  "craft_assemble cl amt address selectedInputs changeAmt fee inputs c =
     (let outputs = AList.update address amt [];
          create = (\<lambda>outputs c.
            case call_CreateRawTransaction cl inputs outputs 0 c of
              (Inl err, c') \<Rightarrow> (Returns (Inl err), c')
            | (Inr tx, c') \<Rightarrow> craft_remove selectedInputs tx fee c')
      in if changeAmt \<noteq> 0
         then (case call_GetNewAddress cl [] c of
                 (Inl err, c') \<Rightarrow> (Returns (Inl err), c')
               | (Inr changeAddr, c') \<Rightarrow>
                   create (AList.update changeAddr changeAmt outputs) c')
         else create outputs c)"

text \<open>
  Lines 156 to 174: each selected output is locked at the node, in order; the first
  error ends the function.
\<close>

fun lock_inputs ::
  "('n, 'a, 'tx) Client \<Rightarrow> (string \<Rightarrow> error + Hash) \<Rightarrow> ListUnspentResult list
    \<Rightarrow> TransactionInput list \<Rightarrow> ('n, 'a) Connector
    \<Rightarrow> (error + TransactionInput list) \<times> ('n, 'a) Connector" where
  "lock_inputs cl NewHashFromStr [] inputs c = (Inr inputs, c)"
| "lock_inputs cl NewHashFromStr (input # rest) inputs c =
     (case NewHashFromStr (TxID input) of
        Inl err \<Rightarrow> (Inl err, c)
      | Inr txid \<Rightarrow>
          (case call_LockUnspent cl False [OutPoint txid (Vout input)] c of
             (Some err, c') \<Rightarrow> (Inl err, c')
           | (None, c') \<Rightarrow>
               lock_inputs cl NewHashFromStr rest
                 (inputs @ [TransactionInput (TxID input) (Vout input)]) c'))"

text \<open>
  Lines 137 to 174: coin selection over the cache under \<^verbatim>\<open>unspentSyncMtx\<close> (a
  \<^verbatim>\<open>nil\<close> map has no entries to range over), then the locking of the selection.
  \<open>orders\<close> are the choices of the runtime for the rounds of this coin selection.
\<close>

definition craft_select ::
  "('n, 'a, 'tx) Client \<Rightarrow> (string \<Rightarrow> error + Hash) \<Rightarrow> 'e TxWeightEstimator
    \<Rightarrow> (nat \<Rightarrow> nat list) \<Rightarrow> 64 word \<Rightarrow> Amount \<Rightarrow> 'a \<Rightarrow> ('n, 'a) Connector
    \<Rightarrow> (error + 'tx \<times> Amount) outcome \<times> ('n, 'a) Connector" where
  "craft_select cl NewHashFromStr twe orders feeRatePerWeight amt address c =
     andThen (Lock_unspentSyncMtx c) (\<lambda>_ c1.
       case coinSelect twe orders feeRatePerWeight amt
              (case unspent c1 of None \<Rightarrow> [] | Some m \<Rightarrow> m) of
         None \<Rightarrow> (NeverReturns, c1)
       | Some r \<Rightarrow>
           andThen (Unlock_unspentSyncMtx c1) (\<lambda>_ c2.
             case r of
               Inl err \<Rightarrow> (Returns (Inl (Errorf ''unable to select inputs: %v'' [err])), c2)
             | Inr (selectedInputs, changeAmt, fee) \<Rightarrow>
                 (case lock_inputs cl NewHashFromStr selectedInputs [] c2 of
                    (Inl err, c3) \<Rightarrow> (Returns (Inl err), c3)
                  | (Inr inputs, c3) \<Rightarrow>
                      craft_assemble cl amt address selectedInputs changeAmt fee
                        inputs c3)))"

text \<open>
  Lines 125 to 135: \<^verbatim>\<open>unspentSyncMtx\<close> is locked; when the cache is \<^verbatim>\<open>nil\<close>
  the mutex is unlocked and \<^verbatim>\<open>syncUnspent\<close> is called; after the
  \<^verbatim>\<open>if\<close>, on both paths, the mutex is unlocked.
\<close>

definition craft_cache ::
  "('n, 'a, 'tx) Client \<Rightarrow> (string \<Rightarrow> error + Hash) \<Rightarrow> 'e TxWeightEstimator
    \<Rightarrow> (nat \<Rightarrow> nat list) \<Rightarrow> 64 word \<Rightarrow> Amount \<Rightarrow> 'a \<Rightarrow> ('n, 'a) Connector
    \<Rightarrow> (error + 'tx \<times> Amount) outcome \<times> ('n, 'a) Connector" where
  "craft_cache cl NewHashFromStr twe orders feeRatePerWeight amt address c =
     andThen (Lock_unspentSyncMtx c) (\<lambda>_ c1.
       let after = (\<lambda>c.
             andThen (Unlock_unspentSyncMtx c) (\<lambda>_ c'.
               craft_select cl NewHashFromStr twe orders feeRatePerWeight amt address c'))
       in if unspent c1 = None
          then andThen (Unlock_unspentSyncMtx c1) (\<lambda>_ c2.
                 andThen (syncUnspent cl c2) (\<lambda>err c3.
                   case err of
                     Some e \<Rightarrow>
                       (Returns (Inl (Errorf ''unable to sync unspent: %v'' [e])), c3)
                   | None \<Rightarrow> after c3))
          else after c1)"

text \<open>
  Lines 111 to 123: \<^verbatim>\<open>coinSelectMtx\<close> is held for the whole call and released
  when the function returns or panics (\<^verbatim>\<open>defer\<close>); the first call to the node
  unlocks all outputs.
\<close>

definition craftTransaction ::
  "('n, 'a, 'tx) Client \<Rightarrow> (string \<Rightarrow> error + Hash) \<Rightarrow> 'e TxWeightEstimator
    \<Rightarrow> (nat \<Rightarrow> nat list) \<Rightarrow> 64 word \<Rightarrow> Amount \<Rightarrow> 'a \<Rightarrow> ('n, 'a) Connector
    \<Rightarrow> (error + 'tx \<times> Amount) outcome \<times> ('n, 'a) Connector" where
  "craftTransaction cl NewHashFromStr twe orders feeRatePerWeight amt address c =
     andThen (Lock_coinSelectMtx c) (\<lambda>_ c1.
       case (case call_LockUnspent cl True [] c1 of
               (Some err, c2) \<Rightarrow>
                 (Returns (Inl (Errorf ''unable to unlock unspent outputs'' [])), c2)
             | (None, c2) \<Rightarrow>
                 craft_cache cl NewHashFromStr twe orders feeRatePerWeight amt address c2) of
         (Returns r, c') \<Rightarrow> (Returns r, c'\<lparr>coinSelectMtx := False\<rparr>)
       | (Panics, c') \<Rightarrow> (Panics, c'\<lparr>coinSelectMtx := False\<rparr>)
       | (Fatal, c') \<Rightarrow> (Fatal, c')
       | (NeverReturns, c') \<Rightarrow> (NeverReturns, c'))"

subsection \<open>Notions used to state the properties\<close>

text \<open>
  The satoshis of an output whose amount converts, and the sum of a list of outputs:
  \<open>totalSat\<close> in \<^verbatim>\<open>int64\<close> arithmetic, as the source adds them up, and
  \<open>totalInt\<close> as the integer that this sum stands for when nothing wraps.
\<close>

definition satoshis :: "ListUnspentResult \<Rightarrow> Amount" where
  "satoshis u = (case Amount u of Finite s \<Rightarrow> s | NaN \<Rightarrow> 0 | PosInf \<Rightarrow> 0 | NegInf \<Rightarrow> 0)"

definition totalSat :: "ListUnspentResult list \<Rightarrow> Amount" where
  "totalSat us = sum_list (map satoshis us)"

definition totalInt :: "ListUnspentResult list \<Rightarrow> int" where
  "totalInt us = sum_list (map (\<lambda>u. sint (satoshis u)) us)"

text \<open>
  The rounds of \<^verbatim>\<open>coinSelect\<close> and the amounts needed in them: round 0 needs the
  target; and when round \<open>k\<close>, with the needed amount \<open>T\<close>, selects (in the order of
  that round) outputs whose excess over the target is below the fee, the loop restarts:
  round \<open>k + 1\<close> needs the target plus that fee.
\<close>

inductive coinSelect_round ::
  "'e TxWeightEstimator \<Rightarrow> (nat \<Rightarrow> nat list) \<Rightarrow> 64 word \<Rightarrow> Amount \<Rightarrow> UnspentMap
    \<Rightarrow> nat \<Rightarrow> Amount \<Rightarrow> bool"
  for twe orders feeRatePerWeight amt xs where
    first: "coinSelect_round twe orders feeRatePerWeight amt xs 0 amt"
  | restart: "coinSelect_round twe orders feeRatePerWeight amt xs k T \<Longrightarrow>
      selectInputs (orders k) T xs = Inr (S, sel) \<Longrightarrow>
      word_sless (S - amt) (requiredFee twe feeRatePerWeight (length sel)) \<Longrightarrow>
      coinSelect_round twe orders feeRatePerWeight amt xs (Suc k)
        (amt + requiredFee twe feeRatePerWeight (length sel))"

text \<open>The calls that a run has added to the log.\<close>

definition new_rpcs :: "('n, 'a) Connector \<Rightarrow> ('n, 'a) Connector \<Rightarrow> 'a rpc list" where
  "new_rpcs c c' = drop (length (rpcs c)) (rpcs c')"


fun is_lock_call :: "'a rpc \<Rightarrow> bool" where
  "is_lock_call (CallLockUnspent unlock ops) = (\<not> unlock)"
| "is_lock_call (CallListUnspentMinMax minConf maxConf) = False"
| "is_lock_call (CallGetNewAddress account) = False"
| "is_lock_call (CallCreateRawTransaction inputs outputs lockTime) = False"


subsection \<open>Concrete inputs\<close>

text \<open>
  An output of transaction \<open>t\<close> with index 0, six confirmations and an amount that
  converts to \<open>a\<close> satoshis, as an entry of the unspent set.
\<close>

definition utxo :: "string \<Rightarrow> Amount \<Rightarrow> string \<times> ListUnspentResult" where
  "utxo t a = (t, \<lparr> TxID = t, Vout = 0, Amount = Finite a, Confirmations = 6 \<rparr>)"

text \<open>
  An estimator of the shape of section 4.2 with 592 weight units for an input and 136
  for an output (148 and 34 bytes, four weight units a byte).
\<close>

definition est :: "int TxWeightEstimator" where
  "est = spec_estimator 592 136"

text \<open>
  Two runs of the runtime's choices: \<open>listed\<close>, in which every round visits the entries
  in the order in which the association list has them; and \<open>second_first\<close>, in which
  round 0 does so and every later round visits the second entry first, then the third
  and the fourth, and after them the others as the list has them (for three entries
  \<open>a\<close>, \<open>b\<close>, \<open>c\<close>: first \<open>a\<close>, \<open>b\<close>, \<open>c\<close>, and then
  \<open>b\<close>, \<open>c\<close>, \<open>a\<close>).
\<close>

definition listed :: "nat \<Rightarrow> nat list" where
  "listed round = []"

definition second_first :: "nat \<Rightarrow> nat list" where
  "second_first round = (if round = 0 then [] else [1, 1, 1])"

text \<open>
  Addresses for the examples: an interface value is given by the identity of the
  object it points to and the text of the address.
\<close>

type_synonym testAddress = "nat \<times> string"

definition destAddr :: testAddress where
  "destAddr = (1, ''dest'')"

definition nodeAddr :: testAddress where
  "nodeAddr = (2, ''change'')"

text \<open>An address with the text of \<open>destAddr\<close> that is another object.\<close>

definition destCopy :: testAddress where
  "destCopy = (3, ''dest'')"

text \<open>
  A node for the examples. Its state counts the outputs locked so far. The unlock-all
  call fails when \<open>unlockFails\<close>; the lock call number \<open>lockFailsAt\<close> (from 0) fails;
  listing answers \<open>listing\<close>; a new address is \<open>newAddress\<close>; and assembly, unless
  \<open>createFails\<close>, answers with the inputs and outputs it was given.
\<close>

definition testClient ::
  "bool \<Rightarrow> nat option \<Rightarrow> error + ListUnspentResult list \<Rightarrow> error + testAddress \<Rightarrow> bool
    \<Rightarrow> (nat, testAddress, TransactionInput list \<times> (testAddress \<times> Amount) list) Client" where
  "testClient unlockFails lockFailsAt listing newAddress createFails =
     \<lparr> LockUnspent = (\<lambda>unlock ops n.
         if unlock then (if unlockFails then Some (RpcError ''unlock'') else None, 0)
         else if lockFailsAt = Some n then (Some (RpcError ''lock''), n)
         else (None, Suc n)),
       ListUnspentMinMax = (\<lambda>minConf maxConf n. (listing, n)),
       GetNewAddress = (\<lambda>account n. (newAddress, n)),
       CreateRawTransaction = (\<lambda>inputs outputs lockTime n.
         (if createFails then Inl (RpcError ''create'') else Inr (inputs, outputs), n)) \<rparr>"

definition testHash :: "string \<Rightarrow> error + Hash" where
  "testHash s = Inr s"

text \<open>A connector with the given cache, no mutex held, no output locked and an empty log.\<close>

definition testConnector :: "UnspentMap option \<Rightarrow> (nat, testAddress) Connector" where
  "testConnector cache =
     \<lparr> node = 0, unspent = cache, MinConfirmations = 1,
       unspentSyncMtx = False, coinSelectMtx = False, rpcs = [] \<rparr>"

section \<open>Properties\<close>

subsection \<open>The order of a range\<close>

lemma range_order_no_choices [simp]: "range_order [] xs = xs"
  by (cases xs) simp_all

lemma range_order_choice:
  "xs \<noteq> [] \<Longrightarrow> range_order (c # cs) xs =
     xs ! (c mod length xs) # range_order cs
       (take (c mod length xs) xs @ drop (Suc (c mod length xs)) xs)"
  by (cases xs) (simp_all add: Let_def)

lemma mset_without_nth:
  assumes "i < length xs"
  shows "add_mset (xs ! i) (mset (take i xs @ drop (Suc i) xs)) = mset xs"
proof -
  have "mset xs = mset (take i xs @ xs ! i # drop (Suc i) xs)"
    using id_take_nth_drop [OF assms] by simp
  then show ?thesis by simp
qed

lemma mset_range_order [simp]: "mset (range_order cs xs) = mset xs"
proof (induction cs arbitrary: xs)
  case Nil
  show ?case by simp
next
  case (Cons c cs)
  show ?case
  proof (cases "xs = []")
    case True
    then show ?thesis by simp
  next
    case False
    then have "c mod length xs < length xs" by simp
    from mset_without_nth [OF this] show ?thesis
      by (simp add: range_order_choice [OF False] Cons.IH)
  qed
qed

lemma length_range_order [simp]: "length (range_order cs xs) = length xs"
  using mset_range_order [of cs xs] by (rule mset_eq_length)

lemma set_range_order [simp]: "set (range_order cs xs) = set xs"
  using mset_range_order [of cs xs] by (rule mset_eq_setD)

lemma range_order_one [simp]: "range_order cs [x] = [x]"
  by (cases cs) simp_all

text \<open>Every order of the entries is the order of some choices.\<close>

lemma range_order_any: "mset ys = mset xs \<Longrightarrow> \<exists>cs. range_order cs xs = ys"
proof (induction ys arbitrary: xs)
  case Nil
  then show ?case by simp
next
  case (Cons y ys)
  from Cons.prems have "y \<in> set xs" by (metis list.set_intros(1) mset_eq_setD)
  then obtain i where i: "i < length xs" "xs ! i = y" by (auto simp: in_set_conv_nth)
  let ?r = "take i xs @ drop (Suc i) xs"
  have "add_mset y (mset ?r) = mset xs"
    using mset_without_nth [OF i(1)] i(2) by simp
  moreover have "add_mset y (mset ys) = mset xs"
    using Cons.prems by simp
  ultimately have "mset ys = mset ?r"
    by (metis add_mset_add_mset_same_iff)
  from Cons.IH [OF this] obtain cs where cs: "range_order cs ?r = ys" by blast
  from i(1) have ne: "xs \<noteq> []" by auto
  have "range_order (i # cs) xs = y # ys"
    using i cs by (simp add: range_order_choice [OF ne])
  then show ?case by blast
qed

subsection \<open>One round of selection\<close>

lemma totalSat_simps [simp]:
  "totalSat [] = 0" "totalSat (u # us) = satoshis u + totalSat us"
  by (simp_all add: totalSat_def)

lemma NewAmount_Inr: "NewAmount (Amount u) = Inr a \<longleftrightarrow> finiteAmount u \<and> a = satoshis u"
  by (auto simp: NewAmount_def finiteAmount_def satoshis_def split: float64.splits)

lemma NewAmount_Inl: "NewAmount (Amount u) = Inl e \<longleftrightarrow> \<not> finiteAmount u \<and> e = ErrInvalidAmount"
  by (auto simp: NewAmount_def finiteAmount_def satoshis_def split: float64.splits)

lemma selectInputs_loop_Inr:
  "selectInputs_loop amt xs acc s = Inr (S, sel) \<Longrightarrow>
   \<exists>n. 0 < n \<and> n \<le> length xs \<and> sel = acc @ map snd (take n xs)
      \<and> S = s + totalSat (map snd (take n xs)) \<and> word_sle amt S
      \<and> (\<forall>u \<in> set (take n xs). finiteAmount (snd u))
      \<and> (\<forall>k. 0 < k \<and> k < n \<longrightarrow> \<not> word_sle amt (s + totalSat (map snd (take k xs))))"
proof (induction xs arbitrary: acc s)
  case Nil
  then show ?case by simp
next
  case (Cons x xs)
  obtain t u where x: "x = (t, u)" by (cases x)
  from Cons.prems x have fin: "finiteAmount u"
    by (auto simp: NewAmount_Inr NewAmount_Inl split: sum.splits)
  show ?case
  proof (cases "word_sle amt (s + satoshis u)")
    case True
    with Cons.prems x fin have "S = s + satoshis u" "sel = acc @ [u]"
      by (auto simp: NewAmount_Inr Let_def split: sum.splits)
    with True fin x show ?thesis
      by (intro exI [of _ 1]) simp
  next
    case False
    with Cons.prems x fin
    have "selectInputs_loop amt xs (acc @ [u]) (s + satoshis u) = Inr (S, sel)"
      by (auto simp: NewAmount_Inr Let_def split: sum.splits)
    from Cons.IH [OF this] obtain n where n: "0 < n" "n \<le> length xs"
      "sel = (acc @ [u]) @ map snd (take n xs)"
      "S = (s + satoshis u) + totalSat (map snd (take n xs))" "word_sle amt S"
      "\<forall>u \<in> set (take n xs). finiteAmount (snd u)"
      "\<forall>k. 0 < k \<and> k < n \<longrightarrow>
         \<not> word_sle amt ((s + satoshis u) + totalSat (map snd (take k xs)))"
      by blast
    have "\<not> word_sle amt (s + totalSat (map snd (take k (x # xs))))"
      if "0 < k" "k < Suc n" for k
    proof (cases k)
      case 0
      with that show ?thesis by simp
    next
      case (Suc j)
      show ?thesis
      proof (cases "j = 0")
        case True
        with Suc False x show ?thesis by simp
      next
        case False
        with Suc that n(7) x show ?thesis by (simp add: add.assoc)
      qed
    qed
    with n fin x show ?thesis
      by (intro exI [of _ "Suc n"]) (simp add: add.assoc)
  qed
qed

lemma selectInputs_loop_Inl:
  "selectInputs_loop amt xs acc s = Inl e \<Longrightarrow>
   (e = ErrInvalidAmount \<and> (\<exists>u \<in> set xs. \<not> finiteAmount (snd u)))
   \<or> (e = ErrInsufficientFunds amt (s + totalSat (map snd xs))
      \<and> (\<forall>u \<in> set xs. finiteAmount (snd u))
      \<and> (\<forall>k. 0 < k \<and> k \<le> length xs \<longrightarrow>
            \<not> word_sle amt (s + totalSat (map snd (take k xs)))))"
proof (induction xs arbitrary: acc s)
  case Nil
  then show ?case by simp
next
  case (Cons x xs)
  obtain t u where x: "x = (t, u)" by (cases x)
  show ?case
  proof (cases "finiteAmount u")
    case False
    with Cons.prems x show ?thesis
      by (auto simp: NewAmount_Inr NewAmount_Inl split: sum.splits)
  next
    case fin: True
    with Cons.prems x have nle: "\<not> word_sle amt (s + satoshis u)"
      and rest: "selectInputs_loop amt xs (acc @ [u]) (s + satoshis u) = Inl e"
      by (auto simp: NewAmount_Inr NewAmount_Inl Let_def split: sum.splits if_splits)
    from Cons.IH [OF rest] show ?thesis
    proof
      assume "e = ErrInvalidAmount \<and> (\<exists>u \<in> set xs. \<not> finiteAmount (snd u))"
      then show ?thesis by auto
    next
      assume r: "e = ErrInsufficientFunds amt (s + satoshis u + totalSat (map snd xs))
        \<and> (\<forall>u \<in> set xs. finiteAmount (snd u))
        \<and> (\<forall>k. 0 < k \<and> k \<le> length xs \<longrightarrow>
            \<not> word_sle amt (s + satoshis u + totalSat (map snd (take k xs))))"
      have "\<not> word_sle amt (s + totalSat (map snd (take k (x # xs))))"
        if "0 < k" "k \<le> length (x # xs)" for k
      proof (cases k)
        case 0
        with that show ?thesis by simp
      next
        case (Suc j)
        show ?thesis
        proof (cases "j = 0")
          case True
          with Suc nle x show ?thesis by simp
        next
          case False
          with Suc that r x show ?thesis by (simp add: add.assoc)
        qed
      qed
      with r fin x show ?thesis by (simp add: add.assoc)
    qed
  qed
qed

lemma totalSat_mset: "mset us = mset vs \<Longrightarrow> totalSat us = totalSat vs"
  unfolding totalSat_def by (metis mset_map sum_mset_sum_list)

lemma totalSat_range_order [simp]:
  "totalSat (map snd (range_order cs xs)) = totalSat (map snd xs)"
  by (rule totalSat_mset) simp

lemma selectInputs_Inr:
  assumes "selectInputs cs T xs = Inr (S, sel)"
  shows "\<exists>n. 0 < n \<and> n \<le> length xs \<and> sel = map snd (take n (range_order cs xs))
      \<and> (\<forall>k. 0 < k \<and> k < n
            \<longrightarrow> \<not> word_sle T (totalSat (map snd (take k (range_order cs xs)))))"
    and "S = totalSat sel" and "word_sle T S" and "\<forall>u \<in> set sel. finiteAmount u"
  using selectInputs_loop_Inr [OF assms [unfolded selectInputs_def]] by auto

lemma selectInputs_Inl:
  assumes "selectInputs cs T xs = Inl e"
  shows "(e = ErrInvalidAmount \<and> (\<exists>u \<in> set xs. \<not> finiteAmount (snd u)))
   \<or> (e = ErrInsufficientFunds T (totalSat (map snd xs))
      \<and> (\<forall>u \<in> set xs. finiteAmount (snd u))
      \<and> (\<forall>k. 0 < k \<and> k \<le> length xs \<longrightarrow>
            \<not> word_sle T (totalSat (map snd (take k (range_order cs xs))))))"
  using selectInputs_loop_Inl [OF assms [unfolded selectInputs_def]] by simp

lemma selectInputs_length:
  assumes "selectInputs cs T xs = Inr (S, sel)"
  shows "0 < length sel" and "length sel \<le> length xs"
proof -
  from selectInputs_Inr(1) [OF assms] obtain n where n: "0 < n" "n \<le> length xs"
    "sel = map snd (take n (range_order cs xs))" by blast
  then have "length sel = n" by simp
  with n show "0 < length sel" and "length sel \<le> length xs" by simp_all
qed

lemma coinSelect_loop_Inr:
  "coinSelect_loop twe ord R amt xs k T = Some y \<Longrightarrow> y = Inr (sel, change, fee) \<Longrightarrow>
   (\<exists>k' T'. selectInputs (ord k') T' xs = Inr (totalSat sel, sel))
   \<and> fee = requiredFee twe R (length sel)
   \<and> \<not> word_sless (totalSat sel - amt) fee
   \<and> change = totalSat sel - amt - fee"
proof (induction twe ord R amt xs k T y arbitrary: sel change fee
    rule: coinSelect_loop.raw_induct [rotated 1, consumes 1])
  case (1 loop twe ord R amt xs k T y)
  show ?case
  proof (cases "selectInputs (ord k) T xs")
    case (Inl e)
    with 1(2,3) show ?thesis by simp
  next
    case (Inr p)
    obtain S sl where p: "p = (S, sl)" by (cases p)
    from selectInputs_Inr(2) [OF Inr [unfolded p]] have S: "S = totalSat sl" .
    show ?thesis
    proof (cases "word_sless (S - amt) (requiredFee twe R (length sl))")
      case True
      with 1(2) Inr p
      have "loop twe ord R amt xs (Suc k) (amt + requiredFee twe R (length sl)) = Some y"
        by (simp add: Let_def)
      from 1(1) [OF this 1(3)] show ?thesis .
    next
      case False
      with 1(2,3) Inr p S show ?thesis
        by (auto simp: Let_def)
    qed
  qed
qed

lemma coinSelect_loop_Inl:
  "coinSelect_loop twe ord R amt xs k T = Some y \<Longrightarrow> y = Inl e \<Longrightarrow>
   \<exists>k' T'. selectInputs (ord k') T' xs = Inl e"
proof (induction twe ord R amt xs k T y arbitrary: e
    rule: coinSelect_loop.raw_induct [rotated 1, consumes 1])
  case (1 loop twe ord R amt xs k T y)
  show ?case
  proof (cases "selectInputs (ord k) T xs")
    case (Inl e')
    with 1(2,3) show ?thesis by auto
  next
    case (Inr p)
    obtain S sl where p: "p = (S, sl)" by (cases p)
    show ?thesis
    proof (cases "word_sless (S - amt) (requiredFee twe R (length sl))")
      case True
      with 1(2) Inr p
      have "loop twe ord R amt xs (Suc k) (amt + requiredFee twe R (length sl)) = Some y"
        by (simp add: Let_def)
      from 1(1) [OF this 1(3)] show ?thesis .
    next
      case False
      with 1(2,3) Inr p show ?thesis
        by (auto simp: Let_def)
    qed
  qed
qed

subsection \<open>Sums without wrap-around\<close>

lemma sint64_range: "- (2 ^ 63) \<le> sint (a :: 64 word)" "sint (a :: 64 word) < 2 ^ 63"
  using sint_ge [of a] sint_lt [of a] by simp_all

lemma sint64_add:
  "- (2 ^ 63) \<le> sint a + sint b \<Longrightarrow> sint a + sint b < 2 ^ 63
    \<Longrightarrow> sint (a + b :: 64 word) = sint a + sint b"
  by (simp add: sint_word_ariths signed_take_bit_int_eq_self)

lemma sint64_diff:
  "- (2 ^ 63) \<le> sint a - sint b \<Longrightarrow> sint a - sint b < 2 ^ 63
    \<Longrightarrow> sint (a - b :: 64 word) = sint a - sint b"
  by (simp add: sint_word_ariths signed_take_bit_int_eq_self)

lemma totalInt_simps [simp]:
  "totalInt [] = 0" "totalInt (u # us) = sint (satoshis u) + totalInt us"
  by (simp_all add: totalInt_def)

lemma totalInt_nonneg: "\<forall>u \<in> set us. word_sle 0 (satoshis u) \<Longrightarrow> 0 \<le> totalInt us"
  by (induction us) (simp_all add: word_sle_eq)

lemma sint_totalSat:
  "\<forall>u \<in> set us. word_sle 0 (satoshis u) \<Longrightarrow> totalInt us < 2 ^ 63
    \<Longrightarrow> sint (totalSat us) = totalInt us"
proof (induction us)
  case Nil
  then show ?case by simp
next
  case (Cons u us)
  have u: "0 \<le> sint (satoshis u)" using Cons.prems(1) by (simp add: word_sle_eq)
  have r: "0 \<le> totalInt us" using Cons.prems(1) by (simp add: totalInt_nonneg)
  from Cons.prems u have "totalInt us < 2 ^ 63" by simp
  with Cons have ih: "sint (totalSat us) = totalInt us" by simp
  from u r Cons.prems(2) ih show ?case by (simp add: sint64_add)
qed

lemma totalInt_append: "totalInt (us @ vs) = totalInt us + totalInt vs"
  by (simp add: totalInt_def)

lemma totalInt_take_mono:
  assumes "\<forall>u \<in> set us. word_sle 0 (satoshis u)" and "j \<le> k"
  shows "totalInt (take j us) \<le> totalInt (take k us)"
proof -
  from assms(2) have "take k us = take j us @ take (k - j) (drop j us)"
    by (metis le_add_diff_inverse take_add)
  moreover have "0 \<le> totalInt (take (k - j) (drop j us))"
    using assms(1) by (intro totalInt_nonneg) (auto dest: in_set_takeD in_set_dropD)
  ultimately show ?thesis by (simp add: totalInt_append)
qed

lemma totalInt_take_le:
  assumes "\<forall>u \<in> set us. word_sle 0 (satoshis u)"
  shows "totalInt (take k us) \<le> totalInt us"
  using totalInt_take_mono [OF assms, of k "length us"] 
  by (cases "k \<le> length us") simp_all

lemma sint_totalSat_take:
  assumes "\<forall>u \<in> set us. word_sle 0 (satoshis u)" and "totalInt us < 2 ^ 63"
  shows "sint (totalSat (take k us)) = totalInt (take k us)"
proof (rule sint_totalSat)
  show "\<forall>u \<in> set (take k us). word_sle 0 (satoshis u)"
    using assms(1) by (auto dest: in_set_takeD)
  show "totalInt (take k us) < 2 ^ 63"
    using totalInt_take_le [OF assms(1), of k] assms(2) by simp
qed

lemma totalInt_mset: "mset us = mset vs \<Longrightarrow> totalInt us = totalInt vs"
  unfolding totalInt_def by (metis mset_map sum_mset_sum_list)

lemma totalInt_range_order [simp]:
  "totalInt (map snd (range_order cs xs)) = totalInt (map snd xs)"
  by (rule totalInt_mset) simp

subsection \<open>The rounds of coinSelect\<close>

lemma coinSelect_loop_error:
  "selectInputs (ord k) T xs = Inl e \<Longrightarrow> coinSelect_loop twe ord R amt xs k T = Some (Inl e)"
  by (subst coinSelect_loop.simps) simp

lemma coinSelect_loop_restart:
  "selectInputs (ord k) T xs = Inr (S, sel) \<Longrightarrow>
   word_sless (S - amt) (requiredFee twe R (length sel)) \<Longrightarrow>
   coinSelect_loop twe ord R amt xs k T
     = coinSelect_loop twe ord R amt xs (Suc k) (amt + requiredFee twe R (length sel))"
  by (subst coinSelect_loop.simps) (simp add: Let_def)

lemma coinSelect_loop_done:
  "selectInputs (ord k) T xs = Inr (S, sel) \<Longrightarrow>
   \<not> word_sless (S - amt) (requiredFee twe R (length sel)) \<Longrightarrow>
   coinSelect_loop twe ord R amt xs k T
     = Some (Inr (sel, S - amt - requiredFee twe R (length sel),
                  requiredFee twe R (length sel)))"
  by (subst coinSelect_loop.simps) (simp add: Let_def)

text \<open>
  A loop in which every round from some round on selects outputs whose excess is below
  the fee, and restarts with the needed amount it had, never returns.
\<close>

lemma coinSelect_loop_stuck:
  "coinSelect_loop twe ord R amt xs k T = Some y \<Longrightarrow>
   \<forall>j. \<exists>S sel. selectInputs (ord j) T xs = Inr (S, sel)
      \<and> word_sless (S - amt) (requiredFee twe R (length sel))
      \<and> amt + requiredFee twe R (length sel) = T \<Longrightarrow> False"
proof (induction twe ord R amt xs k T y
    rule: coinSelect_loop.raw_induct [rotated 1, consumes 1])
  case (1 loop twe ord R amt xs k T y)
  from 1(3) obtain S sel where r: "selectInputs (ord k) T xs = Inr (S, sel)"
    "word_sless (S - amt) (requiredFee twe R (length sel))"
    "amt + requiredFee twe R (length sel) = T" by blast
  from 1(2) r have "loop twe ord R amt xs (Suc k) T = Some y"
    by (simp add: Let_def)
  from 1(1) [OF this 1(3)] show ?case .
qed

lemma coinSelect_loop_None:
  assumes "\<forall>j. \<exists>S sel. selectInputs (ord j) T xs = Inr (S, sel)
      \<and> word_sless (S - amt) (requiredFee twe R (length sel))
      \<and> amt + requiredFee twe R (length sel) = T"
  shows "coinSelect_loop twe ord R amt xs k T = None"
proof (cases "coinSelect_loop twe ord R amt xs k T")
  case None
  then show ?thesis .
next
  case (Some y)
  from coinSelect_loop_stuck [OF Some assms] show ?thesis ..
qed

lemma coinSelect_round_loop:
  "coinSelect_round twe ord R amt xs k T \<Longrightarrow>
   coinSelect_loop twe ord R amt xs k T = coinSelect twe ord R amt xs"
proof (induction rule: coinSelect_round.induct)
  case first
  show ?case by (simp add: coinSelect_def)
next
  case (restart k T S sel)
  from coinSelect_loop_restart [where ord = ord and k = k, OF restart.hyps(2,3)] restart.IH
  show ?case by simp
qed

lemma coinSelect_loop_Inl_round:
  "coinSelect_loop twe ord R amt xs k T = Some y \<Longrightarrow> y = Inl e \<Longrightarrow>
   coinSelect_round twe ord R amt xs k T \<Longrightarrow>
   \<exists>k' T'. coinSelect_round twe ord R amt xs k' T' \<and> selectInputs (ord k') T' xs = Inl e"
proof (induction twe ord R amt xs k T y arbitrary: e
    rule: coinSelect_loop.raw_induct [rotated 1, consumes 1])
  case (1 loop twe ord R amt xs k T y)
  show ?case
  proof (cases "selectInputs (ord k) T xs")
    case (Inl e')
    with 1(2,3,4) show ?thesis by auto
  next
    case (Inr p)
    obtain S sl where p: "p = (S, sl)" by (cases p)
    show ?thesis
    proof (cases "word_sless (S - amt) (requiredFee twe R (length sl))")
      case True
      with 1(2) Inr p
      have "loop twe ord R amt xs (Suc k) (amt + requiredFee twe R (length sl)) = Some y"
        by (simp add: Let_def)
      moreover
      have "coinSelect_round twe ord R amt xs (Suc k) (amt + requiredFee twe R (length sl))"
        using 1(4) Inr [unfolded p] True by (rule coinSelect_round.restart)
      ultimately show ?thesis using 1(1) 1(3) by blast
    next
      case False
      with 1(2,3) Inr p show ?thesis
        by (auto simp: Let_def)
    qed
  qed
qed

text \<open>
  A restart, when the target is not negative and the target plus the fee does not wrap:
  the needed amount grows.
\<close>

lemma restart_facts:
  assumes amt: "word_sle 0 amt"
    and fee: "\<forall>n. 0 < n \<and> n \<le> length xs \<longrightarrow> sint amt + sint (requiredFee twe R n) < 2 ^ 63"
    and ge: "word_sle amt T"
    and sel: "selectInputs cs T xs = Inr (S, sel)"
    and short: "word_sless (S - amt) (requiredFee twe R (length sel))"
  shows "word_sless T (amt + requiredFee twe R (length sel))"
    and "word_sle amt (amt + requiredFee twe R (length sel))"
proof -
  let ?f = "requiredFee twe R (length sel)"
  note len = selectInputs_length [OF sel]
  have A: "0 \<le> sint amt" using amt by (simp add: word_sle_eq)
  have TS: "sint T \<le> sint S"
    using selectInputs_Inr(3) [OF sel] by (simp add: word_sle_eq)
  have AT: "sint amt \<le> sint T" using ge by (simp add: word_sle_eq)
  have over: "sint (S - amt) = sint S - sint amt"
    using A AT TS sint64_range [of S] by (intro sint64_diff) simp_all
  from short have lt: "sint S - sint amt < sint ?f"
    by (simp add: word_sless_alt over)
  from fee len have up: "sint amt + sint ?f < 2 ^ 63" by simp
  have sum: "sint (amt + ?f) = sint amt + sint ?f"
    using lt up A AT TS by (intro sint64_add) simp_all
  show "word_sless T (amt + ?f)" using lt TS sum by (simp add: word_sless_alt)
  show "word_sle amt (amt + ?f)" using lt TS AT sum by (simp add: word_sle_eq)
qed

lemma coinSelect_round_ge:
  assumes amt: "word_sle 0 amt"
    and fee: "\<forall>n. 0 < n \<and> n \<le> length xs \<longrightarrow> sint amt + sint (requiredFee twe R n) < 2 ^ 63"
  shows "coinSelect_round twe ord R amt xs k T \<Longrightarrow> word_sle amt T"
proof (induction rule: coinSelect_round.induct)
  case first
  show ?case by (simp add: word_sle_eq)
next
  case (restart k T S sel)
  from restart_facts(2) [OF amt fee restart.IH restart.hyps(2,3)] show ?case .
qed

text \<open>
  The loop returns: the needed amounts of the rounds are among the target plus the fee
  of \<open>n\<close> inputs, for the numbers \<open>n\<close> of inputs that the set can give, and each
  restart leaves fewer of these above the needed amount.
\<close>

lemma coinSelect_loop_returns:
  assumes amt: "word_sle 0 amt"
    and fee: "\<forall>n. 0 < n \<and> n \<le> length xs \<longrightarrow> sint amt + sint (requiredFee twe R n) < 2 ^ 63"
  shows "word_sle amt T \<Longrightarrow>
    card {n. 0 < n \<and> n \<le> length xs \<and> word_sless T (amt + requiredFee twe R n)} = m
    \<Longrightarrow> \<exists>r. coinSelect_loop twe ord R amt xs k T = Some r"
proof (induction m arbitrary: k T rule: less_induct)
  case (less m)
  show ?case
  proof (cases "selectInputs (ord k) T xs")
    case (Inl e)
    then show ?thesis by (simp add: coinSelect_loop_error)
  next
    case (Inr p)
    obtain S sel where p: "p = (S, sel)" by (cases p)
    note sel = Inr [unfolded p]
    show ?thesis
    proof (cases "word_sless (S - amt) (requiredFee twe R (length sel))")
      case False
      from coinSelect_loop_done [where ord = ord and k = k, OF sel False]
      show ?thesis by simp
    next
      case True
      let ?T' = "amt + requiredFee twe R (length sel)"
      let ?A = "\<lambda>T. {n. 0 < n \<and> n \<le> length xs \<and> word_sless T (amt + requiredFee twe R n)}"
      note f = restart_facts [OF amt fee less.prems(1) sel True]
      note len = selectInputs_length [OF sel]
      have fin: "finite (?A T)"
        by (rule finite_subset [of _ "{..length xs}"]) auto
      have inA: "length sel \<in> ?A T" using len f(1) by simp
      have notin: "length sel \<notin> ?A ?T'" by (simp add: word_sless_alt)
      have sub: "?A ?T' \<subseteq> ?A T"
      proof
        fix n assume "n \<in> ?A ?T'"
        then have n: "0 < n" "n \<le> length xs" "word_sless ?T' (amt + requiredFee twe R n)"
          by simp_all
        from f(1) n(3) have "word_sless T (amt + requiredFee twe R n)"
          by (simp add: word_sless_alt)
        with n(1,2) show "n \<in> ?A T" by simp
      qed
      from sub inA notin have "?A ?T' \<subset> ?A T" by blast
      with fin have "card (?A ?T') < card (?A T)" by (rule psubset_card_mono)
      with less.prems(2) have "card (?A ?T') < m" by simp
      from less.IH [OF this f(2) refl, of "Suc k"] obtain r where
        "coinSelect_loop twe ord R amt xs (Suc k) ?T' = Some r" by blast
      with coinSelect_loop_restart [where ord = ord and k = k, OF sel True]
      show ?thesis by simp
    qed
  qed
qed

lemma coinSelect_returns:
  assumes amt: "word_sle 0 amt"
    and fee: "\<forall>n. 0 < n \<and> n \<le> length xs \<longrightarrow> sint amt + sint (requiredFee twe R n) < 2 ^ 63"
  shows "\<exists>r. coinSelect twe ord R amt xs = Some r"
proof -
  have "word_sle amt amt" by (simp add: word_sle_eq)
  from coinSelect_loop_returns [OF amt fee this refl] show ?thesis
    by (simp add: coinSelect_def)
qed

subsection \<open>Auxiliary facts and examples\<close>

lemma weightEstimate_spec: "weightEstimate (spec_estimator a b) n = int n * a + 2 * b"
proof -
  have "((\<lambda>w. w + a) ^^ n) w = w + int n * a" for w
    by (induction n arbitrary: w) (simp_all add: algebra_simps)
  then show ?thesis by (simp add: weightEstimate_def spec_estimator_def)
qed

lemma requiredFee_est: "requiredFee est R n = word_of_int (int n * 592 + 272) * R"
  by (simp add: requiredFee_def est_def weightEstimate_spec)

lemma sint64_word_of_int: "sint (word_of_int k :: 64 word) = signed_take_bit 63 k"
  by (simp add: sint_sbintrunc')

lemma sint64_of_int: "- (2 ^ 63) \<le> k \<Longrightarrow> k < 2 ^ 63 \<Longrightarrow> sint (word_of_int k :: 64 word) = k"
  by (simp add: sint_sbintrunc' signed_take_bit_int_eq_self)

lemma uint64_minus_1: "uint (- 1 :: 64 word) = 18446744073709551615"
  by (simp add: unsigned_minus_1_eq_mask mask_eq_exp_minus_1)

lemma sint64_of_int_high:
  "2 ^ 63 \<le> k \<Longrightarrow> k < 2 ^ 64 \<Longrightarrow> sint (word_of_int k :: 64 word) = k - 2 ^ 64"
proof -
  assume a: "2 ^ 63 \<le> k" "k < 2 ^ 64"
  have "(k + 2 ^ 63) mod 2 ^ 64 = k + 2 ^ 63 - 2 ^ 64"
  proof -
    have "(k + 2 ^ 63) mod 2 ^ 64 = (k + 2 ^ 63 - 2 ^ 64) mod 2 ^ 64"
      by (metis mod_diff_right_eq mod_self diff_zero)
    also have "\<dots> = k + 2 ^ 63 - 2 ^ 64"
      using a by (intro mod_pos_pos_trivial) simp_all
    finally show ?thesis .
  qed
  then show ?thesis by (simp add: int_word_sint)
qed

text \<open>A map of one entry is visited in one order only.\<close>

lemma one_output_selected:
  "word_sle T a \<Longrightarrow> selectInputs cs T [utxo t a] = Inr (a, [snd (utxo t a)])"
  by (simp add: selectInputs_def NewAmount_def utxo_def Let_def)

lemma one_output_insufficient:
  "\<not> word_sle T a \<Longrightarrow> selectInputs cs T [utxo t a] = Inl (ErrInsufficientFunds T a)"
  by (simp add: selectInputs_def NewAmount_def utxo_def Let_def)

lemma totalSat_of_int: "totalSat us = word_of_int (totalInt us)"
  by (induction us) simp_all

lemma sint_totalSat_in_range:
  "- (2 ^ 63) \<le> totalInt us \<Longrightarrow> totalInt us < 2 ^ 63 \<Longrightarrow> sint (totalSat us) = totalInt us"
  unfolding totalSat_of_int by (rule sint64_of_int)

lemma requiredFee_rate_0: "requiredFee twe 0 n = 0"
  by (simp add: requiredFee_def)

lemma example_wrapped_sum:
  "coinSelect twe listed 0 4611686018427387905
      [utxo ''a'' 4611686018427387904, utxo ''b'' 4611686018427387904,
       utxo ''c'' 4611686018427387904, utxo ''d'' 4611686018427387904,
       utxo ''e'' 5, utxo ''f'' 4611686018427387904]
     = Some (Inr (map snd
           [utxo ''a'' 4611686018427387904, utxo ''b'' 4611686018427387904,
            utxo ''c'' 4611686018427387904, utxo ''d'' 4611686018427387904,
            utxo ''e'' 5, utxo ''f'' 4611686018427387904], 4, 0))"
  unfolding coinSelect_def
  apply (subst coinSelect_loop.simps)
  apply (simp add: selectInputs_def listed_def NewAmount_def requiredFee_rate_0 utxo_def
      Let_def word_sless_alt word_sle_eq)
  done

text \<open>
  At the fee rate 0, whatever the estimator and the orders of iteration, the target
  \<open>- 2 ^ 63\<close> is never funded from an output of one satoshi: the loop does not return.
\<close>

lemma example_negative_target:
  "coinSelect twe ord 0 (- 9223372036854775808) [utxo ''a'' 1] = None"
proof -
  have "\<exists>S sel. selectInputs (ord j) (- 9223372036854775808) [utxo ''a'' 1] = Inr (S, sel)
      \<and> word_sless (S - (- 9223372036854775808)) (requiredFee twe 0 (length sel))
      \<and> - 9223372036854775808 + requiredFee twe 0 (length sel) = - 9223372036854775808"
    for j
  proof (intro exI conjI)
    show "selectInputs (ord j) (- 9223372036854775808) [utxo ''a'' 1]
        = Inr (1, [snd (utxo ''a'' 1)])"
      by (rule one_output_selected) (simp add: word_sle_eq)
    show "word_sless (1 - (- 9223372036854775808))
        (requiredFee twe 0 (length [snd (utxo ''a'' 1)]))"
      by (simp add: requiredFee_rate_0 word_sless_alt)
    show "- 9223372036854775808 + requiredFee twe 0 (length [snd (utxo ''a'' 1)])
        = - 9223372036854775808"
      by (simp add: requiredFee_rate_0)
  qed
  then show ?thesis unfolding coinSelect_def by (intro coinSelect_loop_None allI)
qed

lemma example_wrapped_sum_total:
  "totalInt (map snd
           [utxo ''a'' 4611686018427387904, utxo ''b'' 4611686018427387904,
            utxo ''c'' 4611686018427387904, utxo ''d'' 4611686018427387904,
            utxo ''e'' 5, utxo ''f'' 4611686018427387904]) = 23058430092136939525"
  by (simp add: utxo_def satoshis_def)

lemma example_two_rounds:
  "coinSelect est listed 1 1000 [utxo ''a'' 1500, utxo ''b'' 3000]
     = Some (Inr ([snd (utxo ''a'' 1500), snd (utxo ''b'' 3000)], 2044, 1456))"
  unfolding coinSelect_def
  apply (subst coinSelect_loop.simps)
  apply (simp add: selectInputs_def listed_def NewAmount_def requiredFee_def
      weightEstimate_spec est_def utxo_def Let_def)
  apply (subst coinSelect_loop.simps)
  apply (simp add: selectInputs_def listed_def NewAmount_def requiredFee_def
      weightEstimate_spec est_def utxo_def Let_def)
  done

lemma example_no_change:
  "coinSelect est ord 1 1000 [utxo ''a'' 1864]
     = Some (Inr ([snd (utxo ''a'' 1864)], 0, 864))"
  unfolding coinSelect_def
  apply (subst coinSelect_loop.simps)
  apply (simp add: selectInputs_def NewAmount_def requiredFee_def weightEstimate_spec
      est_def utxo_def Let_def word_sless_alt)
  done

text \<open>
  The rounds of one run need not visit the entries in the same order. Of the outputs
  \<open>a\<close> of 100 satoshis and \<open>b\<close> and \<open>c\<close> of 1900 each, round 0, starting at \<open>a\<close>,
  selects \<open>a\<close> and \<open>b\<close> for the target 1000; their excess of 1000 is below the fee of
  1456, and round 1, starting at \<open>b\<close>, selects \<open>b\<close> and \<open>c\<close> for the needed amount
  2456.
\<close>

lemma example_orders_differ:
  "coinSelect est second_first 1 1000 [utxo ''a'' 100, utxo ''b'' 1900, utxo ''c'' 1900]
     = Some (Inr ([snd (utxo ''b'' 1900), snd (utxo ''c'' 1900)], 1344, 1456))"
  unfolding coinSelect_def
  apply (subst coinSelect_loop.simps)
  apply (simp add: selectInputs_def second_first_def NewAmount_def requiredFee_def
      weightEstimate_spec est_def utxo_def Let_def)
  apply (subst coinSelect_loop.simps)
  apply (simp add: selectInputs_def second_first_def NewAmount_def requiredFee_def
      weightEstimate_spec est_def utxo_def Let_def)
  done

text \<open>
  A selection whose amounts add up to a negative number. The target is
  \<open>2 ^ 63 - 1\<close>; round 0 selects the three outputs, of \<open>2 ^ 63 - 1024\<close>, \<open>- 5\<close>
  and 1028 satoshis, which add up to the target; their excess 0 is below the fee of
  2048; the needed amount of round 1, the target plus the fee, wraps to a negative
  amount, which the output \<open>b\<close> of \<open>- 5\<close> satoshis, visited first in round 1,
  reaches; its excess over the target wraps to \<open>2 ^ 63 - 4\<close>.
\<close>

lemma example_negative_sum:
  "coinSelect est second_first 1 9223372036854775807
      [utxo ''a'' 9223372036854774784, utxo ''b'' (- 5), utxo ''c'' 1028]
     = Some (Inr ([snd (utxo ''b'' (- 5))], 9223372036854774940, 864))"
  unfolding coinSelect_def
  apply (subst coinSelect_loop.simps)
  apply (simp add: selectInputs_def second_first_def NewAmount_def requiredFee_def
      weightEstimate_spec est_def utxo_def Let_def word_sless_alt word_sle_eq)
  apply (subst coinSelect_loop.simps)
  apply (simp add: selectInputs_def second_first_def NewAmount_def requiredFee_def
      weightEstimate_spec est_def utxo_def Let_def word_sless_alt word_sle_eq)
  done

subsection \<open>The selection covers the amount and the fee\<close>

text \<open>
  Claim C1, as amended. When \<^verbatim>\<open>coinSelect\<close> returns a selection, in whatever orders
  its rounds have visited the entries, and the returned fee is not negative, and the
  selected amounts add up to a number of satoshis that is not negative and below
  \<open>2 ^ 63\<close>, then the sum of the selected amounts is at least the target plus the
  returned fee, and the returned change is that sum minus the target minus the fee,
  which is not negative.
\<close>

theorem coinSelect_covers_amount_and_fee:
  assumes sel: "coinSelect twe ord R amt xs = Some (Inr (sel, change, fee))"
    and low: "0 \<le> totalInt sel"
    and high: "totalInt sel < 2 ^ 63"
    and fee: "word_sle 0 fee"
  shows "sint amt + sint fee \<le> totalInt sel
    \<and> sint change = totalInt sel - sint amt - sint fee
    \<and> 0 \<le> sint change"
proof -
  from coinSelect_loop_Inr [OF sel [unfolded coinSelect_def] refl]
  have ge: "\<not> word_sless (totalSat sel - amt) fee"
    and ch: "change = totalSat sel - amt - fee" by blast+
  have S: "sint (totalSat sel) = totalInt sel"
    using low high by (intro sint_totalSat_in_range) simp_all
  have F: "0 \<le> sint fee" using fee by (simp add: word_sle_eq)
  from ge F have pos: "0 \<le> sint (totalSat sel - amt)"
    by (simp add: word_sless_alt)
  have over: "sint (totalSat sel - amt) = totalInt sel - sint amt"
  proof (cases "totalInt sel - sint amt < 2 ^ 63")
    case True
    then show ?thesis
      using S low sint64_range [of amt] by (simp add: sint64_diff)
  next
    case False
    have "totalSat sel - amt = word_of_int (totalInt sel - sint amt)"
      by (simp add: totalSat_of_int)
    moreover have "sint (word_of_int (totalInt sel - sint amt) :: 64 word)
        = totalInt sel - sint amt - 2 ^ 64"
      using False high sint64_range [of amt] by (intro sint64_of_int_high) simp_all
    ultimately have "sint (totalSat sel - amt) < 0"
      using high sint64_range [of amt] by simp
    with pos show ?thesis by simp
  qed
  from ge have le: "sint fee \<le> totalInt sel - sint amt"
    by (simp add: word_sless_alt over)
  have "sint change = totalInt sel - sint amt - sint fee"
    unfolding ch using over le F pos sint64_range [of "totalSat sel - amt"]
    by (simp add: sint64_diff)
  with le show ?thesis by simp
qed

theorem coinSelect_covers_amount_and_fee_witness:
  "coinSelect est second_first 1 1000 [utxo ''a'' 100, utxo ''b'' 1900, utxo ''c'' 1900]
     = Some (Inr ([snd (utxo ''b'' 1900), snd (utxo ''c'' 1900)], 1344, 1456))
   \<and> sint (1000 :: 64 word) + sint (1456 :: 64 word)
       \<le> totalInt [snd (utxo ''b'' 1900), snd (utxo ''c'' 1900)]
   \<and> sint (1344 :: 64 word)
       = totalInt [snd (utxo ''b'' 1900), snd (utxo ''c'' 1900)]
         - sint (1000 :: 64 word) - sint (1456 :: 64 word)
   \<and> 0 \<le> sint (1344 :: 64 word)"
proof -
  let ?sel = "[snd (utxo ''b'' 1900), snd (utxo ''c'' 1900)]"
  have h2: "0 \<le> totalInt ?sel" by (simp add: utxo_def satoshis_def)
  have h3: "totalInt ?sel < 2 ^ 63" by (simp add: utxo_def satoshis_def)
  have h4: "word_sle 0 (1456 :: 64 word)" by (simp add: word_sle_eq)
  from coinSelect_covers_amount_and_fee [OF example_orders_differ h2 h3 h4]
  show ?thesis using example_orders_differ by simp
qed

text \<open>
  Whatever the estimator and the orders of iteration, provided the weight for one input
  and two outputs is between 1 and 100000000, there is a fee rate at which the selection
  of one output of two bitcoins for a target of one returns a negative fee and a
  negative change.
\<close>

lemma negative_change_any_estimator:
  assumes W: "weightEstimate twe 1 = W" and pos: "0 < W" and small: "W \<le> 100000000"
  shows "\<exists>change fee.
      coinSelect twe ord (word_of_int ((2 ^ 63 + W - 1) div W)) 100000000
          [utxo ''a'' 200000000]
        = Some (Inr ([snd (utxo ''a'' 200000000)], change, fee))
      \<and> sint fee < 0 \<and> sint change < 0"
proof -
  define n :: int where "n = 2 ^ 63 + W - 1"
  define F :: int where "F = W * (n div W)"
  define R :: "64 word" where "R = word_of_int (n div W)"
  define fee :: "64 word" where "fee = word_of_int F"
  have F: "F = n - n mod W"
    unfolding F_def by (simp only: minus_mod_eq_mult_div)
  have m: "0 \<le> n mod W" "n mod W < W" using pos by simp_all
  have lo: "2 ^ 63 \<le> F" using F m by (simp add: n_def)
  have hi: "F < 2 ^ 63 + W" using F m by (simp add: n_def)
  have W': "weightEstimate twe (Suc 0) = W" using W by simp
  have req: "requiredFee twe R (length [snd (utxo ''a'' 200000000)]) = fee"
    by (simp add: requiredFee_def W' R_def fee_def F_def)
  have sfee: "sint fee = F - 2 ^ 64"
    unfolding fee_def using lo hi small by (intro sint64_of_int_high) simp_all
  have first: "selectInputs (ord 0) 100000000 [utxo ''a'' 200000000]
      = Inr (200000000, [snd (utxo ''a'' 200000000)])"
    by (rule one_output_selected) (simp add: word_sle_eq)
  have neg: "sint fee < 0" using sfee hi small by simp
  then have enough: "\<not> word_sless (200000000 - 100000000)
      (requiredFee twe R (length [snd (utxo ''a'' 200000000)]))"
    unfolding req by (simp add: word_sless_alt)
  have "200000000 - 100000000 - fee = (word_of_int (100000000 - F) :: 64 word)"
    unfolding fee_def by simp
  moreover have "sint (word_of_int (100000000 - F) :: 64 word) = 100000000 - F"
    using lo hi small by (intro sint64_of_int) simp_all
  ultimately have change: "sint (200000000 - 100000000 - fee) < 0"
    using lo by simp
  have "coinSelect twe ord R 100000000 [utxo ''a'' 200000000]
      = Some (Inr ([snd (utxo ''a'' 200000000)], 200000000 - 100000000 - fee, fee))"
    unfolding coinSelect_def
      coinSelect_loop_done [where ord = ord and k = 0, OF first enough] req ..
  with neg change show ?thesis unfolding R_def n_def by blast
qed

text \<open>
  Without these bounds the claim fails. At a fee rate of 10675199116730065 the product
  of weight and rate, taken in \<^verbatim>\<open>uint64\<close>, has its top bit set: the fee is a
  negative \<^verbatim>\<open>int64\<close>, the excess of 100000000 satoshis is not below it,
  and the change, the excess minus the fee, wraps to a negative amount. At the fee
  rate 0, whatever the estimator, six outputs whose amounts add up to
  \<open>2 ^ 64 + 2 ^ 62 + 5\<close> satoshis are selected for a target of \<open>2 ^ 62 + 1\<close>, as
  their \<^verbatim>\<open>int64\<close> sum is \<open>2 ^ 62 + 5\<close>: the change returned is 4, and the sum
  less the target and the fee is \<open>2 ^ 64 + 4\<close>. And a selection whose amounts add up
  to \<open>- 5\<close> satoshis is returned for the target \<open>2 ^ 63 - 1\<close> and the fee 864, with
  a change of \<open>2 ^ 63 - 868\<close>.
\<close>

theorem coinSelect_negative_change:
  "coinSelect est listed 10675199116730065 100000000 [utxo ''a'' 200000000]
     = Some (Inr ([snd (utxo ''a'' 200000000)],
                  - 9223372036754776160, - 9223372036854775456))
   \<and> sint (- 9223372036754776160 :: 64 word) < 0
   \<and> coinSelect est listed 0 4611686018427387905
      [utxo ''a'' 4611686018427387904, utxo ''b'' 4611686018427387904,
       utxo ''c'' 4611686018427387904, utxo ''d'' 4611686018427387904,
       utxo ''e'' 5, utxo ''f'' 4611686018427387904]
     = Some (Inr (map snd
           [utxo ''a'' 4611686018427387904, utxo ''b'' 4611686018427387904,
            utxo ''c'' 4611686018427387904, utxo ''d'' 4611686018427387904,
            utxo ''e'' 5, utxo ''f'' 4611686018427387904], 4, 0))
   \<and> totalInt (map snd
           [utxo ''a'' 4611686018427387904, utxo ''b'' 4611686018427387904,
            utxo ''c'' 4611686018427387904, utxo ''d'' 4611686018427387904,
            utxo ''e'' 5, utxo ''f'' 4611686018427387904])
         - sint (4611686018427387905 :: 64 word) - sint (0 :: 64 word)
     = 18446744073709551620
   \<and> coinSelect est second_first 1 9223372036854775807
      [utxo ''a'' 9223372036854774784, utxo ''b'' (- 5), utxo ''c'' 1028]
     = Some (Inr ([snd (utxo ''b'' (- 5))], 9223372036854774940, 864))
   \<and> totalInt [snd (utxo ''b'' (- 5))]
         - sint (9223372036854775807 :: 64 word) - sint (864 :: 64 word)
     = - 9223372036854776676"
proof -
  have "coinSelect est listed 10675199116730065 100000000 [utxo ''a'' 200000000]
     = Some (Inr ([snd (utxo ''a'' 200000000)],
                  - 9223372036754776160, - 9223372036854775456))"
    unfolding coinSelect_def
    by (subst coinSelect_loop.simps)
      (simp add: selectInputs_def NewAmount_def requiredFee_est utxo_def Let_def)
  moreover have "sint (- 9223372036754776160 :: 64 word) < 0" by simp
  moreover have "totalInt [snd (utxo ''b'' (- 5))]
         - sint (9223372036854775807 :: 64 word) - sint (864 :: 64 word)
     = - 9223372036854776676"
    by (simp add: utxo_def satoshis_def)
  ultimately show ?thesis
    using example_wrapped_sum example_wrapped_sum_total example_negative_sum by simp
qed

subsection \<open>The fee is the weight times the rate\<close>

text \<open>
  Claim C5, as amended. When \<^verbatim>\<open>coinSelect\<close> returns a selection of \<open>n\<close> outputs, the
  returned fee is the weight that the estimator gives after \<open>n\<close> pay-to-public-key-hash
  inputs and two such outputs (the destination and the change output, which is always
  assumed, whatever the change comes to), multiplied by the fee rate in
  \<^verbatim>\<open>uint64\<close> arithmetic: the product of the two numbers modulo \<open>2 ^ 64\<close>, read
  as an \<^verbatim>\<open>int64\<close>. The returned fee is the product of the two numbers exactly
  when that product is in the range of an \<^verbatim>\<open>int64\<close> (for a weight that is not
  negative: when it is below \<open>2 ^ 63\<close>).
\<close>

theorem coinSelect_required_fee:
  assumes "coinSelect twe ord R amt xs = Some (Inr (sel, change, fee))"
  shows "fee = word_of_int (Weight twe (AddP2PKHOutput twe (AddP2PKHOutput twe
                  ((AddP2PKHInput twe ^^ length sel) (twe_zero twe))))) * R
    \<and> sint fee = signed_take_bit 63 (weightEstimate twe (length sel) * uint R)
    \<and> (sint fee = weightEstimate twe (length sel) * uint R
        \<longleftrightarrow> - (2 ^ 63) \<le> weightEstimate twe (length sel) * uint R
          \<and> weightEstimate twe (length sel) * uint R < 2 ^ 63)"
proof -
  let ?P = "weightEstimate twe (length sel) * uint R"
  from coinSelect_loop_Inr [OF assms [unfolded coinSelect_def] refl]
  have fee: "fee = requiredFee twe R (length sel)" by blast
  have "word_of_int (uint R) = R" by (rule word_of_int_uint)
  then have P: "fee = word_of_int ?P"
    unfolding fee requiredFee_def by simp
  have s: "sint fee = signed_take_bit 63 ?P"
    unfolding P by (rule sint64_word_of_int)
  have "signed_take_bit 63 ?P = ?P \<longleftrightarrow> - (2 ^ 63) \<le> ?P \<and> ?P < 2 ^ 63"
    by (rule signed_take_bit_int_eq_self_iff)
  with s fee show ?thesis by (simp add: requiredFee_def weightEstimate_def)
qed

theorem coinSelect_required_fee_witness:
  "coinSelect est listed 1 1000 [utxo ''a'' 1864]
     = Some (Inr ([snd (utxo ''a'' 1864)], 0, 864))
   \<and> (864 :: 64 word) = word_of_int (Weight est (AddP2PKHOutput est (AddP2PKHOutput est
                  ((AddP2PKHInput est ^^ 1) (twe_zero est))))) * 1
   \<and> sint (864 :: 64 word) = weightEstimate est 1 * uint (1 :: 64 word)
   \<and> weightEstimate est 1 * uint (1 :: 64 word) < 2 ^ 63"
  using coinSelect_required_fee [OF example_no_change [of listed]] example_no_change [of listed]
  by (simp add: weightEstimate_spec est_def)

text \<open>
  Whatever the estimator and the orders of iteration, provided the weight for one input
  and two outputs is positive (and below \<open>2 ^ 63\<close>), at the largest fee rate,
  \<open>2 ^ 64 - 1\<close>, the fee returned for one selected output is the negated weight, which
  is not the weight multiplied by the rate.
\<close>

lemma wrapped_fee_any_estimator:
  assumes pos: "0 < weightEstimate twe 1" and small: "weightEstimate twe 1 < 2 ^ 63"
  shows "\<exists>change fee.
      coinSelect twe ord (- 1) 1000 [utxo ''a'' 5000]
        = Some (Inr ([snd (utxo ''a'' 5000)], change, fee))
      \<and> sint fee = - weightEstimate twe 1
      \<and> sint fee \<noteq> weightEstimate twe (length [snd (utxo ''a'' 5000)]) * uint (- 1 :: 64 word)"
proof -
  let ?W = "weightEstimate twe 1"
  define fee :: "64 word" where "fee = word_of_int (- ?W)"
  have req: "requiredFee twe (- 1) (length [snd (utxo ''a'' 5000)]) = fee"
    by (simp add: requiredFee_def fee_def)
  have sfee: "sint fee = - ?W"
    unfolding fee_def using pos small by (intro sint64_of_int) simp_all
  have first: "selectInputs (ord 0) 1000 [utxo ''a'' 5000]
      = Inr (5000, [snd (utxo ''a'' 5000)])"
    by (rule one_output_selected) (simp add: word_sle_eq)
  have enough: "\<not> word_sless (5000 - 1000)
      (requiredFee twe (- 1) (length [snd (utxo ''a'' 5000)]))"
    unfolding req using sfee pos by (simp add: word_sless_alt)
  have run: "coinSelect twe ord (- 1) 1000 [utxo ''a'' 5000]
      = Some (Inr ([snd (utxo ''a'' 5000)], 5000 - 1000 - fee, fee))"
    unfolding coinSelect_def
      coinSelect_loop_done [where ord = ord and k = 0, OF first enough] req ..
  have "0 < ?W * uint (- 1 :: 64 word)" using pos by (simp add: uint64_minus_1)
  with sfee pos have "sint fee \<noteq> weightEstimate twe (length [snd (utxo ''a'' 5000)])
      * uint (- 1 :: 64 word)" by simp
  with run sfee show ?thesis by blast
qed

text \<open>
  The claim as stated fails where the \<^verbatim>\<open>uint64\<close> product wraps. At the fee rate
  21350398233460130 the weight of 864 multiplied by the rate is \<open>2 ^ 64 + 704\<close>, and
  the fee returned is 704. At the fee rate \<open>2 ^ 64 - 1\<close> the fee returned is
  \<open>- 864\<close>.
\<close>

theorem coinSelect_fee_wraps:
  "coinSelect est listed 21350398233460130 1000 [utxo ''a'' 5000]
     = Some (Inr ([snd (utxo ''a'' 5000)], 3296, 704))
   \<and> weightEstimate est (length [snd (utxo ''a'' 5000)]) * uint (21350398233460130 :: 64 word)
     = 18446744073709552320
   \<and> coinSelect est listed 18446744073709551615 1000 [utxo ''a'' 5000]
     = Some (Inr ([snd (utxo ''a'' 5000)], 4864, - 864))
   \<and> weightEstimate est (length [snd (utxo ''a'' 5000)]) * uint (18446744073709551615 :: 64 word)
     = 15937986879685052595360"
proof -
  have "coinSelect est listed 21350398233460130 1000 [utxo ''a'' 5000]
     = Some (Inr ([snd (utxo ''a'' 5000)], 3296, 704))"
    unfolding coinSelect_def
    by (subst coinSelect_loop.simps)
      (simp add: selectInputs_def NewAmount_def requiredFee_est utxo_def Let_def
         word_sless_alt)
  moreover have "coinSelect est listed 18446744073709551615 1000 [utxo ''a'' 5000]
     = Some (Inr ([snd (utxo ''a'' 5000)], 4864, - 864))"
    unfolding coinSelect_def
    by (subst coinSelect_loop.simps)
      (simp add: selectInputs_def NewAmount_def requiredFee_est utxo_def Let_def
         word_sless_alt)
  ultimately show ?thesis
    by (simp add: weightEstimate_spec est_def)
qed

subsection \<open>The fee-convergence loop terminates\<close>

lemma example_first_round:
  "selectInputs (listed 0) 1000 [utxo ''a'' 1500, utxo ''b'' 3000]
     = Inr (1500, [snd (utxo ''a'' 1500)])"
  by (simp add: selectInputs_def listed_def NewAmount_def utxo_def Let_def)

text \<open>
  Claim C2, as amended. For every unspent set, in whatever order each round visits its
  entries, every target that is not negative, and every fee rate at which the target
  plus the fee of any number of inputs of the set stays below \<open>2 ^ 63\<close> (so that the
  needed amount does not wrap), the loop of \<^verbatim>\<open>coinSelect\<close> returns: with a
  selection, or with the error of a round of selection, which is insufficient funds
  with the total of the whole set as the available amount (or the conversion error of
  an amount that is not finite). Each restart runs the selection again from scratch,
  with the target plus the fee as the needed amount, and that amount is larger than the
  one of the round before.
\<close>

theorem coinSelect_terminates:
  assumes amt: "word_sle 0 amt"
    and fee: "\<forall>n. 0 < n \<and> n \<le> length xs \<longrightarrow> sint amt + sint (requiredFee twe R n) < 2 ^ 63"
  shows "(\<exists>r. coinSelect twe ord R amt xs = Some r
            \<and> (\<forall>e. r = Inl e \<longrightarrow> e = ErrInvalidAmount
                  \<or> (\<exists>needed. e = ErrInsufficientFunds needed (totalSat (map snd xs)))))
    \<and> (\<forall>k T S sel. coinSelect_round twe ord R amt xs k T
           \<and> selectInputs (ord k) T xs = Inr (S, sel)
           \<and> word_sless (S - amt) (requiredFee twe R (length sel))
         \<longrightarrow> word_sless T (amt + requiredFee twe R (length sel))
           \<and> coinSelect_loop twe ord R amt xs k T
               = coinSelect_loop twe ord R amt xs (Suc k)
                   (amt + requiredFee twe R (length sel)))"
proof (intro conjI allI impI)
  from coinSelect_returns [OF amt fee] obtain r where
    r: "coinSelect twe ord R amt xs = Some r" by blast
  have "e = ErrInvalidAmount
      \<or> (\<exists>needed. e = ErrInsufficientFunds needed (totalSat (map snd xs)))"
    if "r = Inl e" for e
  proof -
    from coinSelect_loop_Inl [OF r [unfolded coinSelect_def] that]
    obtain k' T' where "selectInputs (ord k') T' xs = Inl e" by blast
    from selectInputs_Inl [OF this] show ?thesis by blast
  qed
  with r show "\<exists>r. coinSelect twe ord R amt xs = Some r
            \<and> (\<forall>e. r = Inl e \<longrightarrow> e = ErrInvalidAmount
                  \<or> (\<exists>needed. e = ErrInsufficientFunds needed (totalSat (map snd xs))))"
    by blast
next
  fix k T S sel
  assume a: "coinSelect_round twe ord R amt xs k T
           \<and> selectInputs (ord k) T xs = Inr (S, sel)
           \<and> word_sless (S - amt) (requiredFee twe R (length sel))"
  then have round: "coinSelect_round twe ord R amt xs k T"
    and sel: "selectInputs (ord k) T xs = Inr (S, sel)"
    and short: "word_sless (S - amt) (requiredFee twe R (length sel))" by simp_all
  from coinSelect_round_ge [OF amt fee round] have ge: "word_sle amt T" .
  from restart_facts(1) [OF amt fee ge sel short]
  show "word_sless T (amt + requiredFee twe R (length sel))" .
  from sel short
  show "coinSelect_loop twe ord R amt xs k T
               = coinSelect_loop twe ord R amt xs (Suc k)
                   (amt + requiredFee twe R (length sel))"
    by (rule coinSelect_loop_restart [where ord = ord and k = k])
qed

theorem coinSelect_terminates_witness:
  "coinSelect est listed 1 1000 [utxo ''a'' 1500, utxo ''b'' 3000]
     = Some (Inr ([snd (utxo ''a'' 1500), snd (utxo ''b'' 3000)], 2044, 1456))
   \<and> word_sless 1000 (1000 + requiredFee est 1 (length [snd (utxo ''a'' 1500)]))
   \<and> coinSelect_loop est listed 1 1000 [utxo ''a'' 1500, utxo ''b'' 3000] 0 1000
       = coinSelect_loop est listed 1 1000 [utxo ''a'' 1500, utxo ''b'' 3000] (Suc 0) 1864"
proof -
  let ?xs = "[utxo ''a'' 1500, utxo ''b'' 3000]"
  have h3: "word_sle 0 (1000 :: 64 word)" by (simp add: word_sle_eq)
  have "sint (1000 :: 64 word) + sint (requiredFee est 1 n) < 2 ^ 63"
    if "0 < n \<and> n \<le> length ?xs" for n
  proof -
    from that have "n = 1 \<or> n = 2" by auto
    then show ?thesis by (auto simp: requiredFee_est)
  qed
  then have h4: "\<forall>n. 0 < n \<and> n \<le> length ?xs
      \<longrightarrow> sint (1000 :: 64 word) + sint (requiredFee est 1 n) < 2 ^ 63" by blast
  have short: "word_sless (1500 - 1000) (requiredFee est 1 (length [snd (utxo ''a'' 1500)]))"
    by (simp add: requiredFee_est)
  have fee1: "1000 + requiredFee est 1 (length [snd (utxo ''a'' 1500)]) = 1864"
    by (simp add: requiredFee_est)
  note inst = coinSelect_terminates [where ord = listed, OF h3 h4]
  from inst [THEN conjunct2, rule_format, of 0 1000 1500 "[snd (utxo ''a'' 1500)]"]
    coinSelect_round.first [of est listed 1 1000 ?xs] example_first_round short
  have "word_sless 1000 (1000 + requiredFee est 1 (length [snd (utxo ''a'' 1500)]))
     \<and> coinSelect_loop est listed 1 1000 ?xs 0 1000
       = coinSelect_loop est listed 1 1000 ?xs (Suc 0)
           (1000 + requiredFee est 1 (length [snd (utxo ''a'' 1500)]))"
    by blast
  then show ?thesis using example_two_rounds unfolding fee1 by simp
qed

text \<open>
  Both hypotheses are needed, whatever the estimator and the orders of iteration. For
  every negative target there is a set on which the loop does not return at the fee
  rate 0: for a target of \<open>- 1024\<close> or less, one output of \<open>2 ^ 63 - 1024\<close>
  satoshis, whose excess over the target wraps to a negative amount; for a target from
  \<open>- 1024\<close> to \<open>- 1\<close>, two outputs of \<open>- 1025\<close> and \<open>- 2 ^ 63 + 1024\<close>
  satoshis, which are selected together in either order, their sum wrapping to
  \<open>2 ^ 63 - 1\<close>. And for every target from 0 to \<open>2 ^ 63 - 1024\<close> and every fee
  rate at which the target plus the fee of one input is \<open>2 ^ 63\<close> or more, the loop
  does not return on the set of one output of \<open>2 ^ 63 - 1024\<close> satoshis.
\<close>

lemma wrapped_excess_negative:
  assumes neg: "sint amt < 0" and big: "2 ^ 63 \<le> sint x - sint amt"
  shows "sint (x - amt :: 64 word) < 0"
proof -
  have "x - amt = word_of_int (sint x - sint amt)" by simp
  moreover have "sint (word_of_int (sint x - sint amt) :: 64 word)
      = sint x - sint amt - 2 ^ 64"
    using big sint64_range [of amt] sint64_range [of x] by (intro sint64_of_int_high) simp_all
  ultimately show ?thesis
    using sint64_range [of amt] sint64_range [of x] by simp
qed

lemma negative_target_never_returns:
  assumes low: "word_sle amt (- 1024)"
  shows "coinSelect twe ord 0 amt [utxo ''a'' 9223372036854774784] = None"
proof -
  let ?x = "9223372036854774784 :: 64 word"
  have a: "sint amt \<le> - 1024" using low by (simp add: word_sle_eq)
  have le: "word_sle amt ?x" using a by (simp add: word_sle_eq)
  have over: "sint (?x - amt) < 0"
    using a by (intro wrapped_excess_negative) simp_all
  have "\<exists>S sel. selectInputs (ord j) amt [utxo ''a'' ?x] = Inr (S, sel)
      \<and> word_sless (S - amt) (requiredFee twe 0 (length sel))
      \<and> amt + requiredFee twe 0 (length sel) = amt" for j
  proof (intro exI conjI)
    show "selectInputs (ord j) amt [utxo ''a'' ?x] = Inr (?x, [snd (utxo ''a'' ?x)])"
      using le by (rule one_output_selected)
    show "word_sless (?x - amt) (requiredFee twe 0 (length [snd (utxo ''a'' ?x)]))"
      using over by (simp add: requiredFee_rate_0 word_sless_alt)
    show "amt + requiredFee twe 0 (length [snd (utxo ''a'' ?x)]) = amt"
      by (simp add: requiredFee_rate_0)
  qed
  then show ?thesis unfolding coinSelect_def by (intro coinSelect_loop_None allI)
qed

lemma range_order_two: "range_order cs [x, y] = [x, y] \<or> range_order cs [x, y] = [y, x]"
proof (cases cs)
  case Nil
  then show ?thesis by simp
next
  case (Cons c cs')
  have "c mod Suc (Suc 0) = 0 \<or> c mod Suc (Suc 0) = Suc 0" by arith
  then show ?thesis
  proof
    assume "c mod Suc (Suc 0) = 0"
    then have "range_order (c # cs') [x, y] = [x, y]" by (simp add: Let_def)
    then show ?thesis unfolding Cons ..
  next
    assume "c mod Suc (Suc 0) = Suc 0"
    then have "range_order (c # cs') [x, y] = [y, x]" by (simp add: Let_def)
    then show ?thesis unfolding Cons ..
  qed
qed

lemma small_negative_target_never_returns:
  assumes neg: "word_sless amt 0" and low: "word_sle (- 1024) amt"
  shows "coinSelect twe ord 0 amt
      [utxo ''a'' (- 1025), utxo ''b'' (- 9223372036854774784)] = None"
proof -
  let ?xs = "[utxo ''a'' (- 1025), utxo ''b'' (- 9223372036854774784)]"
  let ?S = "9223372036854775807 :: 64 word"
  have a: "sint amt < 0" "- 1024 \<le> sint amt"
    using neg low by (simp_all add: word_sless_alt word_sle_eq)
  have n1: "\<not> word_sle amt (- 1025)" using a by (simp add: word_sle_eq)
  have n2: "\<not> word_sle amt (- 9223372036854774784)" using a by (simp add: word_sle_eq)
  have le: "word_sle amt ?S" using a by (simp add: word_sle_eq)
  have wrap: "(- 9223372036854775809 :: 64 word) = ?S" by simp
  have over: "sint (?S - amt) < 0"
    using a by (intro wrapped_excess_negative) simp_all
  have sel: "\<exists>sel. selectInputs cs amt ?xs = Inr (?S, sel) \<and> length sel = 2" for cs
    using range_order_two [of cs "utxo ''a'' (- 1025)" "utxo ''b'' (- 9223372036854774784)"]
  proof
    assume "range_order cs ?xs = ?xs"
    then show ?thesis
      using n1 n2 le by (simp add: selectInputs_def NewAmount_def utxo_def Let_def wrap)
  next
    assume "range_order cs ?xs = [utxo ''b'' (- 9223372036854774784), utxo ''a'' (- 1025)]"
    then show ?thesis
      using n1 n2 le by (simp add: selectInputs_def NewAmount_def utxo_def Let_def wrap)
  qed
  have "\<exists>S sel. selectInputs (ord j) amt ?xs = Inr (S, sel)
      \<and> word_sless (S - amt) (requiredFee twe 0 (length sel))
      \<and> amt + requiredFee twe 0 (length sel) = amt" for j
  proof -
    from sel [of "ord j"] obtain sl where
      "selectInputs (ord j) amt ?xs = Inr (?S, sl)" by blast
    moreover have "word_sless (?S - amt) (requiredFee twe 0 (length sl))"
      using over by (simp add: requiredFee_rate_0 word_sless_alt)
    moreover have "amt + requiredFee twe 0 (length sl) = amt"
      by (simp add: requiredFee_rate_0)
    ultimately show ?thesis by blast
  qed
  then show ?thesis unfolding coinSelect_def by (intro coinSelect_loop_None allI)
qed

lemma wrapped_needed_amount_never_returns:
  assumes amt: "word_sle 0 amt" and fits: "word_sle amt 9223372036854774784"
    and wraps: "2 ^ 63 \<le> sint amt + sint (requiredFee twe R 1)"
  shows "coinSelect twe ord R amt [utxo ''a'' 9223372036854774784] = None"
proof -
  let ?x = "9223372036854774784 :: 64 word"
  let ?f = "requiredFee twe R (length [snd (utxo ''a'' ?x)])"
  let ?T = "amt + ?f"
  have f1: "?f = requiredFee twe R 1" by simp
  have A: "0 \<le> sint amt" using amt by (simp add: word_sle_eq)
  have X: "sint amt \<le> 9223372036854774784" using fits by (simp add: word_sle_eq)
  have F: "2 ^ 63 - sint amt \<le> sint ?f" using wraps unfolding f1 by simp
  have "?T = word_of_int (sint amt + sint ?f)" by simp
  moreover have "sint (word_of_int (sint amt + sint ?f) :: 64 word)
      = sint amt + sint ?f - 2 ^ 64"
    using wraps sint64_range [of amt] sint64_range [of ?f] unfolding f1
    by (intro sint64_of_int_high) simp_all
  ultimately have T: "sint ?T < 0"
    using sint64_range [of amt] sint64_range [of ?f] by simp
  have sel: "selectInputs (ord j) T' [utxo ''a'' ?x] = Inr (?x, [snd (utxo ''a'' ?x)])"
    if "word_sle T' ?x" for j T'
    using that by (rule one_output_selected)
  have over: "sint (?x - amt) = 9223372036854774784 - sint amt"
    using A X sint64_diff [of ?x amt] by simp
  have short: "word_sless (?x - amt) ?f"
    using F by (simp add: word_sless_alt over)
  have le1: "word_sle ?T ?x" using T by (simp add: word_sle_eq)
  have "coinSelect_loop twe ord R amt [utxo ''a'' ?x] 0 amt
    = coinSelect_loop twe ord R amt [utxo ''a'' ?x] (Suc 0) ?T"
    by (rule coinSelect_loop_restart [where ord = ord and k = 0, OF sel [OF fits] short])
  also have "\<dots> = None"
  proof (intro coinSelect_loop_None allI exI conjI)
    fix j
    show "selectInputs (ord j) ?T [utxo ''a'' ?x] = Inr (?x, [snd (utxo ''a'' ?x)])"
      by (rule sel [OF le1])
    show "word_sless (?x - amt) ?f" by (rule short)
    show "amt + ?f = ?T" ..
  qed
  finally show ?thesis by (simp add: coinSelect_def)
qed

text \<open>
  Without these bounds the loop need not end, whatever the orders of iteration. With
  the target \<open>- 2 ^ 63\<close> and the fee rate 0, the excess of the one output over the
  target wraps to a negative amount, which is below the fee 0, and the loop restarts
  with the needed amount it had. With the target 100000000 and the fee rate
  10675199116730064, the target plus the fee wraps to a negative needed amount, the
  same output is selected again, and every later round is this round. And where the
  loop does return, it may return neither a selection nor insufficient funds: from a
  set whose one amount is not finite it returns the conversion error.
\<close>

theorem coinSelect_never_returns:
  "(\<forall>ord. coinSelect est ord 0 (- 9223372036854775808) [utxo ''a'' 1] = None)
   \<and> (\<forall>ord. coinSelect est ord 10675199116730064 100000000 [utxo ''a'' 200000000] = None)
   \<and> (\<forall>ord. coinSelect est ord 1 1000 [(''b'', snd (utxo ''b'' 0) \<lparr>Amount := NaN\<rparr>)]
         = Some (Inl ErrInvalidAmount))"
proof (intro conjI allI)
  fix ord :: "nat \<Rightarrow> nat list"
  show "coinSelect est ord 0 (- 9223372036854775808) [utxo ''a'' 1] = None"
    by (rule example_negative_target)
next
  fix ord :: "nat \<Rightarrow> nat list"
  show "coinSelect est ord 1 1000 [(''b'', snd (utxo ''b'' 0) \<lparr>Amount := NaN\<rparr>)]
         = Some (Inl ErrInvalidAmount)"
    unfolding coinSelect_def
    by (rule coinSelect_loop_error) (simp add: selectInputs_def NewAmount_def utxo_def)
next
  fix ord :: "nat \<Rightarrow> nat list"
  let ?xs = "[utxo ''a'' 200000000]"
  let ?R = "10675199116730064 :: 64 word"
  have sel: "selectInputs (ord j) T ?xs = Inr (200000000, [snd (utxo ''a'' 200000000)])"
    if "word_sle T 200000000" for j T
    using that by (rule one_output_selected)
  have fee: "requiredFee est ?R (length [snd (utxo ''a'' 200000000)]) = 9223372036854775296"
    by (simp add: requiredFee_est)
  have short: "word_sless (200000000 - 100000000)
      (requiredFee est ?R (length [snd (utxo ''a'' 200000000)]))"
    unfolding fee by (simp add: word_sless_alt)
  have next_amount: "100000000 + requiredFee est ?R (length [snd (utxo ''a'' 200000000)])
      = 9223372036954775296"
    unfolding fee by simp
  have le0: "word_sle (100000000 :: 64 word) 200000000" by (simp add: word_sle_eq)
  have le1: "word_sle (9223372036954775296 :: 64 word) 200000000" by (simp add: word_sle_eq)
  have "coinSelect_loop est ord ?R 100000000 ?xs 0 100000000
    = coinSelect_loop est ord ?R 100000000 ?xs (Suc 0) 9223372036954775296"
    using coinSelect_loop_restart [where ord = ord and k = 0, OF sel [OF le0] short]
    unfolding next_amount .
  also have "\<dots> = None"
  proof (intro coinSelect_loop_None allI exI conjI)
    fix j
    show "selectInputs (ord j) 9223372036954775296 ?xs
        = Inr (200000000, [snd (utxo ''a'' 200000000)])"
      by (rule sel [OF le1])
    show "word_sless (200000000 - 100000000)
        (requiredFee est ?R (length [snd (utxo ''a'' 200000000)]))"
      by (rule short)
    show "100000000 + requiredFee est ?R (length [snd (utxo ''a'' 200000000)])
        = 9223372036954775296"
      by (rule next_amount)
  qed
  finally show "coinSelect est ord ?R 100000000 ?xs = None"
    by (simp add: coinSelect_def)
qed

subsection \<open>Insufficient funds\<close>

lemma selectInputs_insufficient_iff:
  "selectInputs cs T xs = Inl (ErrInsufficientFunds needed available)
    \<longleftrightarrow> needed = T \<and> available = totalSat (map snd xs)
       \<and> (\<forall>u \<in> set xs. finiteAmount (snd u))
       \<and> (\<forall>k. 0 < k \<and> k \<le> length xs
             \<longrightarrow> \<not> word_sle T (totalSat (map snd (take k (range_order cs xs)))))"
  (is "?L \<longleftrightarrow> ?R")
proof
  assume ?L
  from selectInputs_Inl [OF this] show ?R by auto
next
  assume r: ?R
  show ?L
  proof (cases "selectInputs cs T xs")
    case (Inl e)
    from selectInputs_Inl [OF Inl] r show ?thesis unfolding Inl by auto
  next
    case (Inr p)
    obtain S sel where p: "p = (S, sel)" by (cases p)
    from selectInputs_Inr(1) [OF Inr [unfolded p]] obtain n where
      n: "0 < n" "n \<le> length xs" "sel = map snd (take n (range_order cs xs))" by blast
    from selectInputs_Inr(2,3) [OF Inr [unfolded p]] n(3)
    have "word_sle T (totalSat (map snd (take n (range_order cs xs))))" by simp
    with r n(1,2) show ?thesis by blast
  qed
qed

lemma no_prefix_covers_iff:
  assumes nonneg: "\<forall>u \<in> set (map snd xs). word_sle 0 (satoshis u)"
    and total: "totalInt (map snd xs) < 2 ^ 63"
  shows "(\<forall>k. 0 < k \<and> k \<le> length xs \<longrightarrow> \<not> word_sle T (totalSat (map snd (take k xs))))
    \<longleftrightarrow> xs = [] \<or> totalInt (map snd xs) < sint T"
  (is "?L \<longleftrightarrow> ?R")
proof
  assume l: ?L
  show ?R
  proof (cases "xs = []")
    case True
    then show ?thesis by simp
  next
    case False
    with l [rule_format, of "length xs"]
    have "\<not> word_sle T (totalSat (map snd xs))" by simp
    moreover have "sint (totalSat (map snd xs)) = totalInt (map snd xs)"
      using nonneg total by (rule sint_totalSat)
    ultimately show ?thesis by (simp add: word_sle_eq)
  qed
next
  assume r: ?R
  show ?L
  proof (intro allI impI)
    fix k assume k: "0 < k \<and> k \<le> length xs"
    then have "xs \<noteq> []" by auto
    with r have lt: "totalInt (map snd xs) < sint T" by simp
    have "sint (totalSat (take k (map snd xs))) = totalInt (take k (map snd xs))"
      using nonneg total by (rule sint_totalSat_take)
    moreover have "totalInt (take k (map snd xs)) \<le> totalInt (map snd xs)"
      using nonneg by (rule totalInt_take_le)
    ultimately show "\<not> word_sle T (totalSat (map snd (take k xs)))"
      using lt by (simp add: word_sle_eq take_map)
  qed
qed

text \<open>The same, for the entries in the order of a visit.\<close>

lemma no_prefix_covers_in_order_iff:
  assumes nonneg: "\<forall>u \<in> set (map snd xs). word_sle 0 (satoshis u)"
    and total: "totalInt (map snd xs) < 2 ^ 63"
  shows "(\<forall>k. 0 < k \<and> k \<le> length xs
            \<longrightarrow> \<not> word_sle T (totalSat (map snd (take k (range_order cs xs)))))
    \<longleftrightarrow> xs = [] \<or> totalInt (map snd xs) < sint T"
proof -
  have n: "\<forall>u \<in> set (map snd (range_order cs xs)). word_sle 0 (satoshis u)"
    using nonneg by simp
  have t: "totalInt (map snd (range_order cs xs)) < 2 ^ 63"
    using total by simp
  have e: "range_order cs xs = [] \<longleftrightarrow> xs = []"
    using length_range_order [of cs xs] by (metis length_0_conv)
  from no_prefix_covers_iff [OF n t, of T] show ?thesis
    by (simp add: e)
qed

lemma example_fee_short:
  "coinSelect est ord 1 100 [utxo ''a'' 100] = Some (Inl (ErrInsufficientFunds 964 100))"
  unfolding coinSelect_def
  apply (subst coinSelect_loop.simps)
  apply (simp add: selectInputs_def NewAmount_def requiredFee_est utxo_def Let_def
      word_sless_alt word_sle_eq)
  apply (subst coinSelect_loop.simps)
  apply (simp add: selectInputs_def NewAmount_def requiredFee_est utxo_def Let_def
      word_sless_alt word_sle_eq)
  done

text \<open>
  Claim C3, as amended. \<^verbatim>\<open>coinSelect\<close> fails with insufficient funds exactly when
  a round of its loop does: round 0, whose needed amount is the target, or a later
  round, whose needed amount is the target plus the fee of the round before. A round
  with the needed amount \<open>T\<close> fails with insufficient funds exactly when every amount
  of the set converts and no prefix of the set, in the order in which the round visits
  it, reaches \<open>T\<close>; the error then reports \<open>T\<close> as the needed amount and the sum of
  the whole set as the available amount. For amounts that are not negative and add up to
  less than \<open>2 ^ 63\<close> satoshis, this is the case, in whatever order the round visits
  the set, exactly when the set is empty or its sum is below \<open>T\<close>.
\<close>

theorem coinSelect_insufficient_funds:
  "(coinSelect twe ord R amt xs = Some (Inl (ErrInsufficientFunds needed available))
      \<longleftrightarrow> (\<exists>k T. coinSelect_round twe ord R amt xs k T
             \<and> selectInputs (ord k) T xs = Inl (ErrInsufficientFunds needed available)))
   \<and> (selectInputs cs T xs = Inl (ErrInsufficientFunds needed available)
      \<longleftrightarrow> needed = T \<and> available = totalSat (map snd xs)
         \<and> (\<forall>u \<in> set xs. finiteAmount (snd u))
         \<and> (\<forall>k. 0 < k \<and> k \<le> length xs
               \<longrightarrow> \<not> word_sle T (totalSat (map snd (take k (range_order cs xs))))))
   \<and> ((\<forall>u \<in> set xs. finiteAmount (snd u) \<and> word_sle 0 (satoshis (snd u)))
        \<and> totalInt (map snd xs) < 2 ^ 63
      \<longrightarrow> (selectInputs cs T xs = Inl (ErrInsufficientFunds T (totalSat (map snd xs)))
            \<longleftrightarrow> xs = [] \<or> totalInt (map snd xs) < sint T))"
proof (intro conjI impI)
  show "coinSelect twe ord R amt xs = Some (Inl (ErrInsufficientFunds needed available))
      \<longleftrightarrow> (\<exists>k T. coinSelect_round twe ord R amt xs k T
             \<and> selectInputs (ord k) T xs = Inl (ErrInsufficientFunds needed available))"
  proof
    assume "coinSelect twe ord R amt xs = Some (Inl (ErrInsufficientFunds needed available))"
    from coinSelect_loop_Inl_round [OF this [unfolded coinSelect_def] refl
        coinSelect_round.first]
    show "\<exists>k T. coinSelect_round twe ord R amt xs k T
             \<and> selectInputs (ord k) T xs = Inl (ErrInsufficientFunds needed available)" .
  next
    assume "\<exists>k T. coinSelect_round twe ord R amt xs k T
             \<and> selectInputs (ord k) T xs = Inl (ErrInsufficientFunds needed available)"
    then obtain k T where T: "coinSelect_round twe ord R amt xs k T"
      "selectInputs (ord k) T xs = Inl (ErrInsufficientFunds needed available)" by blast
    from coinSelect_round_loop [OF T(1)]
      coinSelect_loop_error [where ord = ord and k = k, OF T(2), of twe R amt]
    show "coinSelect twe ord R amt xs = Some (Inl (ErrInsufficientFunds needed available))"
      by simp
  qed
next
  show "selectInputs cs T xs = Inl (ErrInsufficientFunds needed available)
      \<longleftrightarrow> needed = T \<and> available = totalSat (map snd xs)
         \<and> (\<forall>u \<in> set xs. finiteAmount (snd u))
         \<and> (\<forall>k. 0 < k \<and> k \<le> length xs
               \<longrightarrow> \<not> word_sle T (totalSat (map snd (take k (range_order cs xs)))))"
    by (rule selectInputs_insufficient_iff)
next
  assume a: "(\<forall>u \<in> set xs. finiteAmount (snd u) \<and> word_sle 0 (satoshis (snd u)))
        \<and> totalInt (map snd xs) < 2 ^ 63"
  then have fin: "\<forall>u \<in> set xs. finiteAmount (snd u)"
    and nonneg: "\<forall>u \<in> set (map snd xs). word_sle 0 (satoshis u)"
    and total: "totalInt (map snd xs) < 2 ^ 63" by simp_all
  show "selectInputs cs T xs = Inl (ErrInsufficientFunds T (totalSat (map snd xs)))
            \<longleftrightarrow> xs = [] \<or> totalInt (map snd xs) < sint T"
    unfolding selectInputs_insufficient_iff no_prefix_covers_in_order_iff [OF nonneg total]
    using fin by simp
qed

theorem coinSelect_insufficient_funds_witness:
  "(\<exists>k T. coinSelect_round est listed 1 100 [utxo ''a'' 100] k T
       \<and> selectInputs (listed k) T [utxo ''a'' 100] = Inl (ErrInsufficientFunds 964 100))
   \<and> selectInputs [] 964 [utxo ''a'' 100] = Inl (ErrInsufficientFunds 964 100)
   \<and> totalInt (map snd [utxo ''a'' 100]) < sint (964 :: 64 word)"
proof -
  let ?xs = "[utxo ''a'' 100]"
  note inst = coinSelect_insufficient_funds [of est listed 1 100 ?xs 964 100 "[]" 964]
  from inst example_fee_short [of listed]
  have c1: "\<exists>k T. coinSelect_round est listed 1 100 ?xs k T
       \<and> selectInputs (listed k) T ?xs = Inl (ErrInsufficientFunds 964 100)" by blast
  have hyp: "(\<forall>u \<in> set ?xs. finiteAmount (snd u) \<and> word_sle 0 (satoshis (snd u)))
        \<and> totalInt (map snd ?xs) < 2 ^ 63"
    by (simp add: utxo_def satoshis_def finiteAmount_def word_sle_eq)
  have tot: "totalSat (map snd ?xs) = 100" by (simp add: utxo_def satoshis_def)
  have lt: "totalInt (map snd ?xs) < sint (964 :: 64 word)"
    by (simp add: utxo_def satoshis_def)
  from inst hyp lt
  have "selectInputs [] 964 ?xs = Inl (ErrInsufficientFunds 964 (totalSat (map snd ?xs)))"
    by blast
  with c1 lt tot show ?thesis by simp
qed

text \<open>
  Whatever the estimator and the orders of iteration, provided the weight for one input
  and two outputs is positive (and below \<open>2 ^ 62\<close>), at the fee rate 1 a set of one
  output of 100 satoshis cannot fund the target of 100, which it covers.
\<close>

lemma fee_short_any_estimator:
  assumes pos: "0 < weightEstimate twe 1" and small: "weightEstimate twe 1 < 2 ^ 62"
  shows "coinSelect twe ord 1 100 [utxo ''a'' 100]
    = Some (Inl (ErrInsufficientFunds (100 + word_of_int (weightEstimate twe 1)) 100))"
proof -
  let ?W = "weightEstimate twe 1"
  let ?fee = "word_of_int ?W :: 64 word"
  have fee: "requiredFee twe 1 (length [snd (utxo ''a'' 100)]) = ?fee"
    by (simp add: requiredFee_def)
  have sfee: "sint ?fee = ?W" using pos small by (intro sint64_of_int) simp_all
  have first: "selectInputs (ord 0) 100 [utxo ''a'' 100] = Inr (100, [snd (utxo ''a'' 100)])"
    by (rule one_output_selected) (simp add: word_sle_eq)
  have short: "word_sless (100 - 100) (requiredFee twe 1 (length [snd (utxo ''a'' 100)]))"
    unfolding fee using pos sfee by (simp add: word_sless_alt)
  have "sint (100 + ?fee) = sint (100 :: 64 word) + sint ?fee"
    using pos small sfee by (intro sint64_add) simp_all
  then have "\<not> word_sle (100 + ?fee) 100"
    using pos sfee by (simp add: word_sle_eq)
  then have second: "selectInputs (ord (Suc 0)) (100 + ?fee) [utxo ''a'' 100]
      = Inl (ErrInsufficientFunds (100 + ?fee) 100)"
    by (rule one_output_insufficient)
  have "coinSelect_loop twe ord 1 100 [utxo ''a'' 100] 0 100
      = coinSelect_loop twe ord 1 100 [utxo ''a'' 100] (Suc 0) (100 + ?fee)"
    using coinSelect_loop_restart [where ord = ord and k = 0, OF first short]
    unfolding fee .
  also have "\<dots> = Some (Inl (ErrInsufficientFunds (100 + ?fee) 100))"
    using second by (rule coinSelect_loop_error [where ord = ord and k = "Suc 0"])
  finally show ?thesis by (simp add: coinSelect_def)
qed

text \<open>
  The claim as stated fails, whatever the orders of iteration: a set of one output of
  100 satoshis covers the target of 100, and yet the selection fails with insufficient
  funds, since the set does not cover the target plus the fee of 864; the needed amount
  reported is 964, not the target.
\<close>

theorem coinSelect_insufficient_though_target_covered:
  "(\<forall>ord. coinSelect est ord 1 100 [utxo ''a'' 100]
       = Some (Inl (ErrInsufficientFunds 964 100)))
   \<and> word_sle 100 (totalSat (map snd [utxo ''a'' 100]))"
  using example_fee_short by (simp add: utxo_def satoshis_def)

subsection \<open>Running craftTransaction\<close>

lemmas mutex_defs = Lock_unspentSyncMtx_def Unlock_unspentSyncMtx_def
  Lock_coinSelectMtx_def Unlock_coinSelectMtx_def

lemmas call_defs = call_LockUnspent_def call_ListUnspentMinMax_def
  call_GetNewAddress_def call_CreateRawTransaction_def

lemma andThen_simps [simp]:
  "andThen (Returns a, s) f = f a s"
  "andThen (Panics, s) f = (Panics, s)"
  "andThen (Fatal, s) f = (Fatal, s)"
  "andThen (NeverReturns, s) f = (NeverReturns, s)"
  by (simp_all add: andThen_def)

lemma unspentSyncMtx_reset [simp]:
  "\<not> unspentSyncMtx c \<Longrightarrow> c\<lparr>unspentSyncMtx := False\<rparr> = c"
  by (cases c) simp

lemma coinSelectMtx_reset [simp]:
  "\<not> coinSelectMtx c \<Longrightarrow> c\<lparr>coinSelectMtx := False\<rparr> = c"
  by (cases c) simp

lemma craft_select_fails:
  assumes "unspent c = Some xs" and "\<not> unspentSyncMtx c"
    and "coinSelect twe ord R amt xs = Some (Inl e)"
  shows "craft_select cl nh twe ord R amt address c
    = (Returns (Inl (Errorf ''unable to select inputs: %v'' [e])), c)"
  using assms by (simp add: craft_select_def mutex_defs)

lemma craft_cache_initialised:
  assumes "unspent c = Some xs" and "\<not> unspentSyncMtx c"
  shows "craft_cache cl nh twe ord R amt address c = craft_select cl nh twe ord R amt address c"
  using assms by (simp add: craft_cache_def mutex_defs Let_def)

lemma craftTransaction_select_fails:
  assumes cache: "unspent c = Some xs"
    and free: "\<not> unspentSyncMtx c" "\<not> coinSelectMtx c"
    and unlock: "LockUnspent cl True [] (node c) = (None, n1)"
    and sel: "coinSelect twe ord R amt xs = Some (Inl e)"
  shows "craftTransaction cl nh twe ord R amt address c
    = (Returns (Inl (Errorf ''unable to select inputs: %v'' [e])),
       c\<lparr>node := n1, rpcs := rpcs c @ [CallLockUnspent True []]\<rparr>)"
proof -
  let ?c2 = "c\<lparr>coinSelectMtx := True, node := n1, rpcs := rpcs c @ [CallLockUnspent True []]\<rparr>"
  have "craft_cache cl nh twe ord R amt address ?c2
    = (Returns (Inl (Errorf ''unable to select inputs: %v'' [e])), ?c2)"
    using cache free sel
    by (simp add: craft_cache_initialised [where xs = xs] craft_select_fails [where xs = xs])
  then show ?thesis
    using free unlock
    by (simp add: craftTransaction_def mutex_defs call_defs)
qed

lemma call_LockUnspent_frame:
  "call_LockUnspent cl unlock ops c = (r, c') \<Longrightarrow>
   unspent c' = unspent c \<and> unspentSyncMtx c' = unspentSyncMtx c
     \<and> coinSelectMtx c' = coinSelectMtx c
     \<and> rpcs c' = rpcs c @ [CallLockUnspent unlock ops]"
  by (auto simp: call_LockUnspent_def split: prod.splits)

lemma call_ListUnspentMinMax_frame:
  "call_ListUnspentMinMax cl a b c = (r, c') \<Longrightarrow>
   unspent c' = unspent c \<and> unspentSyncMtx c' = unspentSyncMtx c
     \<and> coinSelectMtx c' = coinSelectMtx c
     \<and> rpcs c' = rpcs c @ [CallListUnspentMinMax a b]"
  by (auto simp: call_ListUnspentMinMax_def split: prod.splits)

lemma call_GetNewAddress_frame:
  "call_GetNewAddress cl a c = (r, c') \<Longrightarrow>
   unspent c' = unspent c \<and> unspentSyncMtx c' = unspentSyncMtx c
     \<and> coinSelectMtx c' = coinSelectMtx c
     \<and> rpcs c' = rpcs c @ [CallGetNewAddress a]"
  by (auto simp: call_GetNewAddress_def split: prod.splits)

lemma call_CreateRawTransaction_frame:
  "call_CreateRawTransaction cl i out l c = (r, c') \<Longrightarrow>
   unspent c' = unspent c \<and> unspentSyncMtx c' = unspentSyncMtx c
     \<and> coinSelectMtx c' = coinSelectMtx c
     \<and> rpcs c' = rpcs c @ [CallCreateRawTransaction i out l]"
  by (auto simp: call_CreateRawTransaction_def split: prod.splits)

lemma lock_inputs_frame:
  "lock_inputs cl nh sel inputs c = (r, c') \<Longrightarrow>
   unspent c' = unspent c \<and> unspentSyncMtx c' = unspentSyncMtx c
     \<and> coinSelectMtx c' = coinSelectMtx c"
proof (induction sel arbitrary: inputs c)
  case Nil
  then show ?case by simp
next
  case (Cons u sel)
  show ?case
  proof (cases "nh (TxID u)")
    case (Inl e)
    with Cons.prems show ?thesis by simp
  next
    case (Inr txid)
    obtain e c1 where call: "call_LockUnspent cl False [OutPoint txid (Vout u)] c = (e, c1)"
      by (cases "call_LockUnspent cl False [OutPoint txid (Vout u)] c")
    note fr = call_LockUnspent_frame [OF call]
    show ?thesis
    proof (cases e)
      case (Some err)
      with Cons.prems Inr call fr show ?thesis by simp
    next
      case None
      with Cons.prems Inr call
      have "lock_inputs cl nh sel (inputs @ [TransactionInput (TxID u) (Vout u)]) c1 = (r, c')"
        by simp
      from Cons.IH [OF this] fr show ?thesis by simp
    qed
  qed
qed

lemma craft_remove_no_error:
  "craft_remove sel tx fee c \<noteq> (Returns (Inl e), c')"
  by (simp add: craft_remove_def mutex_defs Let_def)

lemma craft_assemble_failure:
  assumes "craft_assemble cl amt address sel change fee inputs c = (Returns (Inl e), c')"
  shows "unspent c' = unspent c"
proof -
  have create: "unspent c'' = unspent c0"
    if "(case call_CreateRawTransaction cl inputs outputs 0 c0 of
              (Inl err, c1) \<Rightarrow> (Returns (Inl err), c1)
            | (Inr tx, c1) \<Rightarrow> craft_remove sel tx fee c1) = (Returns (Inl e), c'')"
    for outputs c0 c''
  proof -
    obtain r c1 where call: "call_CreateRawTransaction cl inputs outputs 0 c0 = (r, c1)"
      by (cases "call_CreateRawTransaction cl inputs outputs 0 c0")
    from that call call_CreateRawTransaction_frame [OF call] show ?thesis
      by (cases r) (simp_all add: craft_remove_no_error)
  qed
  show ?thesis
  proof (cases "change = 0")
    case True
    with assms create show ?thesis by (simp add: craft_assemble_def Let_def)
  next
    case False
    obtain r c1 where call: "call_GetNewAddress cl [] c = (r, c1)"
      by (cases "call_GetNewAddress cl [] c")
    note fr = call_GetNewAddress_frame [OF call]
    show ?thesis
    proof (cases r)
      case (Inl err)
      with assms False call fr show ?thesis by (simp add: craft_assemble_def Let_def)
    next
      case (Inr a)
      with assms False call have "(case call_CreateRawTransaction cl inputs
          (AList.update a change (AList.update address amt [])) 0 c1 of
              (Inl err, c1) \<Rightarrow> (Returns (Inl err), c1)
            | (Inr tx, c1) \<Rightarrow> craft_remove sel tx fee c1) = (Returns (Inl e), c')"
        by (simp add: craft_assemble_def Let_def)
      from create [OF this] fr show ?thesis by simp
    qed
  qed
qed

lemma craft_select_failure:
  assumes "craft_select cl nh twe ord R amt address c = (Returns (Inl e), c')"
  shows "unspent c' = unspent c"
proof (cases "unspentSyncMtx c")
  case True
  with assms show ?thesis by (simp add: craft_select_def mutex_defs)
next
  case free: False
  let ?xs = "case unspent c of None \<Rightarrow> [] | Some m \<Rightarrow> m"
  show ?thesis
  proof (cases "coinSelect twe ord R amt ?xs")
    case None
    with assms free show ?thesis by (simp add: craft_select_def mutex_defs)
  next
    case (Some r)
    show ?thesis
    proof (cases r)
      case (Inl err)
      with assms free Some show ?thesis by (simp add: craft_select_def mutex_defs)
    next
      case (Inr p)
      obtain sel change fee where p: "p = (sel, change, fee)" by (cases p)
      obtain li c3 where locks: "lock_inputs cl nh sel [] c = (li, c3)"
        by (cases "lock_inputs cl nh sel [] c")
      note fr = lock_inputs_frame [OF locks]
      show ?thesis
      proof (cases li)
        case (Inl err)
        with assms free Some Inr p locks fr show ?thesis
          by (simp add: craft_select_def mutex_defs)
      next
        case li: (Inr inputs)
        with assms free Some Inr p locks
        have "craft_assemble cl amt address sel change fee inputs c3 = (Returns (Inl e), c')"
          by (simp add: craft_select_def mutex_defs)
        from craft_assemble_failure [OF this] fr show ?thesis by simp
      qed
    qed
  qed
qed

lemma syncUnspent_cases:
  assumes free: "\<not> unspentSyncMtx c"
    and call: "ListUnspentMinMax cl (MinConfirmations c) 2147483647 (node c) = (r, n')"
  shows "syncUnspent cl c =
    (case r of
       Inl err \<Rightarrow> (Returns (Some (Errorf ''unable to list unspent: %v'' [])),
          c\<lparr>node := n', rpcs := rpcs c @ [CallListUnspentMinMax (MinConfirmations c) 2147483647]\<rparr>)
     | Inr us \<Rightarrow> (if fst (syncUnspent_loop us []) then Returns None else Panics,
          c\<lparr>node := n', rpcs := rpcs c @ [CallListUnspentMinMax (MinConfirmations c) 2147483647],
            unspent := Some (snd (syncUnspent_loop us []))\<rparr>))"
  using free call
  by (cases c) (auto simp: syncUnspent_def mutex_defs call_defs Let_def
      split: sum.splits prod.splits bool.splits)

lemma syncUnspent_blocked:
  "unspentSyncMtx c \<Longrightarrow> syncUnspent cl c = (NeverReturns, c)"
  by (simp add: syncUnspent_def mutex_defs)

lemma craft_cache_uninitialised:
  assumes nil: "unspent c = None" and free: "\<not> unspentSyncMtx c"
    and call: "ListUnspentMinMax cl (MinConfirmations c) 2147483647 (node c) = (r, n')"
  shows "craft_cache cl nh twe ord R amt address c =
    (case r of
       Inl err \<Rightarrow> (Returns (Inl (Errorf ''unable to sync unspent: %v''
                      [Errorf ''unable to list unspent: %v'' []])),
          c\<lparr>node := n', rpcs := rpcs c @ [CallListUnspentMinMax (MinConfirmations c) 2147483647]\<rparr>)
     | Inr us \<Rightarrow> (if fst (syncUnspent_loop us []) then Fatal else Panics,
          c\<lparr>node := n', rpcs := rpcs c @ [CallListUnspentMinMax (MinConfirmations c) 2147483647],
            unspent := Some (snd (syncUnspent_loop us []))\<rparr>))"
  using nil free
  by (cases r)
    (simp_all add: craft_cache_def mutex_defs Let_def syncUnspent_cases [OF free call])

lemma craft_cache_failure:
  assumes "craft_cache cl nh twe ord R amt address c = (Returns (Inl e), c')"
  shows "unspent c' = unspent c"
proof (cases "unspentSyncMtx c")
  case True
  with assms show ?thesis by (simp add: craft_cache_def mutex_defs)
next
  case free: False
  show ?thesis
  proof (cases "unspent c")
    case (Some xs)
    from assms have "craft_select cl nh twe ord R amt address c = (Returns (Inl e), c')"
      unfolding craft_cache_initialised [OF Some free] .
    then show ?thesis by (rule craft_select_failure)
  next
    case None
    obtain r n' where call:
      "ListUnspentMinMax cl (MinConfirmations c) 2147483647 (node c) = (r, n')"
      by (cases "ListUnspentMinMax cl (MinConfirmations c) 2147483647 (node c)")
    from assms show ?thesis
      unfolding craft_cache_uninitialised [OF None free call]
      by (cases r) (auto split: if_splits)
  qed
qed

lemmas craft_defs = craftTransaction_def craft_cache_def craft_select_def
  craft_assemble_def craft_remove_def

lemmas test_defs = testClient_def testConnector_def testHash_def

lemma example_three_outputs:
  "coinSelect est listed 0 1200 [utxo ''a'' 500, utxo ''b'' 500, utxo ''c'' 500]
     = Some (Inr ([snd (utxo ''a'' 500), snd (utxo ''b'' 500), snd (utxo ''c'' 500)], 300, 0))"
  unfolding coinSelect_def
  apply (subst coinSelect_loop.simps)
  apply (simp add: selectInputs_def listed_def NewAmount_def requiredFee_est utxo_def Let_def
      word_sless_alt word_sle_eq)
  done

lemma example_lock_failure:
  "craftTransaction (testClient False (Some 1) (Inl (RpcError ''list'')) (Inr nodeAddr) False)
      testHash est listed 0 1200 destAddr
      (testConnector (Some [utxo ''a'' 500, utxo ''b'' 500, utxo ''c'' 500]))
   = (Returns (Inl (RpcError ''lock'')),
      (testConnector (Some [utxo ''a'' 500, utxo ''b'' 500, utxo ''c'' 500]))
        \<lparr>node := 1,
         rpcs := [CallLockUnspent True [], CallLockUnspent False [OutPoint ''a'' 0],
                  CallLockUnspent False [OutPoint ''b'' 0]]\<rparr>)"
  by (simp add: craft_defs mutex_defs call_defs test_defs example_three_outputs Let_def)
    (simp add: utxo_def)

subsection \<open>A failed call leaves the cache as it was\<close>

text \<open>
  Claim C4. Whenever \<^verbatim>\<open>craftTransaction\<close> returns an error (the unlock-all call
  failed, or \<^verbatim>\<open>syncUnspent\<close>, or the selection, or the conversion of a
  transaction id, or a lock call, or the call for a change address, or the assembly of
  the raw transaction), the cache is the one the call started with: the entries of the
  selected outputs are deleted only after the assembly has succeeded.
\<close>

theorem craftTransaction_failure_keeps_cache:
  assumes "craftTransaction cl nh twe ord R amt address c = (Returns (Inl err), c')"
  shows "unspent c' = unspent c"
proof (cases "coinSelectMtx c")
  case True
  with assms show ?thesis by (simp add: craftTransaction_def mutex_defs)
next
  case free: False
  let ?c1 = "c\<lparr>coinSelectMtx := True\<rparr>"
  obtain e c2 where call: "call_LockUnspent cl True [] ?c1 = (e, c2)"
    by (cases "call_LockUnspent cl True [] ?c1")
  from call_LockUnspent_frame [OF call] have fr: "unspent c2 = unspent c" by simp
  show ?thesis
  proof (cases e)
    case (Some e')
    with assms free call fr show ?thesis
      by (auto simp: craftTransaction_def mutex_defs)
  next
    case None
    obtain r c3 where body: "craft_cache cl nh twe ord R amt address c2 = (r, c3)"
      by (cases "craft_cache cl nh twe ord R amt address c2")
    from assms free call None body have "r = Returns (Inl err)" "unspent c' = unspent c3"
      by (auto simp: craftTransaction_def mutex_defs split: outcome.splits)
    with craft_cache_failure [of cl nh twe ord R amt address c2 err c3] body fr
    show ?thesis by simp
  qed
qed

theorem craftTransaction_failure_keeps_cache_witness:
  "fst (craftTransaction
      (testClient False (Some 1) (Inl (RpcError ''list'')) (Inr nodeAddr) False)
      testHash est listed 0 1200 destAddr
      (testConnector (Some [utxo ''a'' 500, utxo ''b'' 500, utxo ''c'' 500])))
     = Returns (Inl (RpcError ''lock''))
   \<and> unspent (snd (craftTransaction
      (testClient False (Some 1) (Inl (RpcError ''list'')) (Inr nodeAddr) False)
      testHash est listed 0 1200 destAddr
      (testConnector (Some [utxo ''a'' 500, utxo ''b'' 500, utxo ''c'' 500]))))
     = Some [utxo ''a'' 500, utxo ''b'' 500, utxo ''c'' 500]"
  using craftTransaction_failure_keeps_cache [OF example_lock_failure] example_lock_failure
  by (simp add: testConnector_def)

subsection \<open>An empty cache\<close>

text \<open>
  Claim C7, as amended. A call of \<^verbatim>\<open>craftTransaction\<close> on an initialised cache
  with no entries, with no mutex held, whose opening unlock-all call succeeds, returns
  the error ``unable to select inputs'' made from insufficient funds with the target
  as the needed amount and 0 as the available amount, for every target. The unlock-all
  call is the only call made to the node: no output is locked.
\<close>

theorem craftTransaction_empty_cache:
  assumes cache: "unspent c = Some []"
    and free: "\<not> unspentSyncMtx c" "\<not> coinSelectMtx c"
    and unlock: "LockUnspent cl True [] (node c) = (None, n1)"
  shows "craftTransaction cl nh twe ord R amt address c
      = (Returns (Inl (Errorf ''unable to select inputs: %v'' [ErrInsufficientFunds amt 0])),
         c\<lparr>node := n1, rpcs := rpcs c @ [CallLockUnspent True []]\<rparr>)
    \<and> filter is_lock_call (new_rpcs c (snd (craftTransaction cl nh twe ord R amt address c))) = []"
proof -
  have "coinSelect twe ord R amt [] = Some (Inl (ErrInsufficientFunds amt 0))"
    by (simp add: coinSelect_def coinSelect_loop_error selectInputs_def)
  from craftTransaction_select_fails [OF cache free unlock this]
  show ?thesis by (simp add: new_rpcs_def)
qed

theorem craftTransaction_empty_cache_witness:
  "craftTransaction (testClient False None (Inr [snd (utxo ''a'' 5000)]) (Inr nodeAddr) False)
      testHash est listed 1 1000 destAddr (testConnector (Some []))
     = (Returns (Inl (Errorf ''unable to select inputs: %v'' [ErrInsufficientFunds 1000 0])),
        (testConnector (Some []))\<lparr>node := 0, rpcs := [CallLockUnspent True []]\<rparr>)"
proof -
  let ?cl = "testClient False None (Inr [snd (utxo ''a'' 5000)]) (Inr nodeAddr) False"
  have h1: "unspent (testConnector (Some [])) = Some []" by (simp add: testConnector_def)
  have h2: "\<not> unspentSyncMtx (testConnector (Some []))" by (simp add: testConnector_def)
  have h3: "\<not> coinSelectMtx (testConnector (Some []))" by (simp add: testConnector_def)
  have h4: "LockUnspent ?cl True [] (node (testConnector (Some []))) = (None, 0)"
    by (simp add: test_defs)
  from craftTransaction_empty_cache [OF h1 h2 h3 h4, of testHash est listed 1 1000 destAddr]
  show ?thesis by (simp add: testConnector_def)
qed

text \<open>
  The claim as stated fails when the node refuses the opening unlock-all call: the call
  then returns the error of that step, not insufficient funds.
\<close>

theorem craftTransaction_unlock_failure:
  "fst (craftTransaction (testClient True None (Inr []) (Inr nodeAddr) False)
      testHash est listed 1 1000 destAddr (testConnector (Some [])))
     = Returns (Inl (Errorf ''unable to unlock unspent outputs'' []))"
  by (simp add: craftTransaction_def mutex_defs call_defs test_defs)

subsection \<open>An amount that does not convert\<close>

lemma selectInputs_loop_invalid:
  "i < length xs \<Longrightarrow> \<forall>j<i. finiteAmount (snd (xs ! j)) \<Longrightarrow> \<not> finiteAmount (snd (xs ! i)) \<Longrightarrow>
   \<forall>k. 0 < k \<and> k \<le> i \<longrightarrow> \<not> word_sle T (s + totalSat (map snd (take k xs))) \<Longrightarrow>
   selectInputs_loop T xs acc s = Inl ErrInvalidAmount"
proof (induction xs arbitrary: i acc s)
  case Nil
  then show ?case by simp
next
  case (Cons x xs)
  obtain t u where x: "x = (t, u)" by (cases x)
  show ?case
  proof (cases i)
    case 0
    with Cons.prems(3) x have "\<not> finiteAmount u" by simp
    then have "NewAmount (Amount u) = Inl ErrInvalidAmount" by (simp add: NewAmount_Inl)
    with x show ?thesis by simp
  next
    case (Suc i')
    from Cons.prems(2) Suc x have fin: "finiteAmount u" by auto
    then have conv: "NewAmount (Amount u) = Inr (satoshis u)" by (simp add: NewAmount_Inr)
    from Cons.prems(4) [rule_format, of 1] Suc x
    have nle: "\<not> word_sle T (s + satoshis u)" by simp
    have i': "i' < length xs" using Cons.prems(1) Suc by simp
    have f': "\<forall>j<i'. finiteAmount (snd (xs ! j))"
      using Cons.prems(2) Suc by auto
    have b': "\<not> finiteAmount (snd (xs ! i'))" using Cons.prems(3) Suc by simp
    have r': "\<forall>k. 0 < k \<and> k \<le> i'
        \<longrightarrow> \<not> word_sle T ((s + satoshis u) + totalSat (map snd (take k xs)))"
    proof (intro allI impI)
      fix k assume "0 < k \<and> k \<le> i'"
      with Cons.prems(4) [rule_format, of "Suc k"] Suc x
      show "\<not> word_sle T ((s + satoshis u) + totalSat (map snd (take k xs)))"
        by (simp add: add.assoc)
    qed
    from Cons.IH [OF i' f' b' r'] conv nle x show ?thesis by (simp add: Let_def)
  qed
qed

lemma selectInputs_invalid:
  "i < length xs \<Longrightarrow> \<forall>j<i. finiteAmount (snd (range_order cs xs ! j)) \<Longrightarrow>
   \<not> finiteAmount (snd (range_order cs xs ! i)) \<Longrightarrow>
   \<forall>n. 0 < n \<and> n \<le> i \<longrightarrow> \<not> word_sle T (totalSat (map snd (take n (range_order cs xs)))) \<Longrightarrow>
   selectInputs cs T xs = Inl ErrInvalidAmount"
  unfolding selectInputs_def by (rule selectInputs_loop_invalid) simp_all

text \<open>
  Claim C10. When, in some round of \<^verbatim>\<open>coinSelect\<close>, with the needed amount \<open>T\<close>
  and in the order in which that round visits the set, the accumulation reaches an
  entry whose amount is not finite (the entries visited before it convert and no prefix
  of them reaches \<open>T\<close>), \<^verbatim>\<open>selectInputs\<close> fails with the conversion error, which
  is not an insufficient-funds error; \<^verbatim>\<open>coinSelect\<close> returns that error; and
  \<^verbatim>\<open>craftTransaction\<close>, on this cache, returns it to its caller inside the error
  ``unable to select inputs''.
\<close>

theorem invalid_amount_is_returned:
  assumes round: "coinSelect_round twe ord R amt xs k T"
    and i: "i < length xs"
    and before: "\<forall>j<i. finiteAmount (snd (range_order (ord k) xs ! j))"
    and bad: "\<not> finiteAmount (snd (range_order (ord k) xs ! i))"
    and reached: "\<forall>n. 0 < n \<and> n \<le> i
        \<longrightarrow> \<not> word_sle T (totalSat (map snd (take n (range_order (ord k) xs))))"
  shows "selectInputs (ord k) T xs = Inl ErrInvalidAmount
    \<and> coinSelect twe ord R amt xs = Some (Inl ErrInvalidAmount)
    \<and> (\<forall>needed available. ErrInvalidAmount \<noteq> ErrInsufficientFunds needed available)
    \<and> (\<forall>cl nh address c n1.
          unspent c = Some xs \<and> \<not> unspentSyncMtx c \<and> \<not> coinSelectMtx c
            \<and> LockUnspent cl True [] (node c) = (None, n1)
          \<longrightarrow> craftTransaction cl nh twe ord R amt address c
              = (Returns (Inl (Errorf ''unable to select inputs: %v'' [ErrInvalidAmount])),
                 c\<lparr>node := n1, rpcs := rpcs c @ [CallLockUnspent True []]\<rparr>))"
proof -
  have sel: "selectInputs (ord k) T xs = Inl ErrInvalidAmount"
    using i before bad reached by (rule selectInputs_invalid)
  from coinSelect_round_loop [OF round]
    coinSelect_loop_error [where ord = ord and k = k, OF sel, of twe R amt]
  have cs: "coinSelect twe ord R amt xs = Some (Inl ErrInvalidAmount)" by simp
  from sel cs craftTransaction_select_fails [OF _ _ _ _ cs] show ?thesis by auto
qed

theorem invalid_amount_is_returned_witness:
  "selectInputs (second_first 1) 1864
        [utxo ''a'' 1500, (''b'', snd (utxo ''b'' 0) \<lparr>Amount := NaN\<rparr>)]
      = Inl ErrInvalidAmount
   \<and> coinSelect est second_first 1 1000
        [utxo ''a'' 1500, (''b'', snd (utxo ''b'' 0) \<lparr>Amount := NaN\<rparr>)]
      = Some (Inl ErrInvalidAmount)
   \<and> craftTransaction (testClient False None (Inr []) (Inr nodeAddr) False)
        testHash est second_first 1 1000 destAddr
        (testConnector (Some [utxo ''a'' 1500, (''b'', snd (utxo ''b'' 0) \<lparr>Amount := NaN\<rparr>)]))
      = (Returns (Inl (Errorf ''unable to select inputs: %v'' [ErrInvalidAmount])),
         (testConnector (Some [utxo ''a'' 1500, (''b'', snd (utxo ''b'' 0) \<lparr>Amount := NaN\<rparr>)]))
           \<lparr>node := 0, rpcs := [CallLockUnspent True []]\<rparr>)"
proof -
  let ?xs = "[utxo ''a'' 1500, (''b'', snd (utxo ''b'' 0) \<lparr>Amount := NaN\<rparr>)]"
  let ?cl = "testClient False None (Inr []) (Inr nodeAddr) False"
  have first: "selectInputs (second_first 0) 1000 ?xs = Inr (1500, [snd (utxo ''a'' 1500)])"
    by (simp add: selectInputs_def second_first_def NewAmount_def utxo_def Let_def)
  have short: "word_sless (1500 - 1000) (requiredFee est 1 (length [snd (utxo ''a'' 1500)]))"
    by (simp add: requiredFee_est)
  have fee1: "1000 + requiredFee est 1 (length [snd (utxo ''a'' 1500)]) = 1864"
    by (simp add: requiredFee_est)
  have h1: "coinSelect_round est second_first 1 1000 ?xs (Suc 0) 1864"
    using coinSelect_round.restart [where orders = second_first and k = 0,
        OF coinSelect_round.first first short]
    unfolding fee1 .
  have order: "range_order (second_first (Suc 0)) ?xs
      = [(''b'', snd (utxo ''b'' 0) \<lparr>Amount := NaN\<rparr>), utxo ''a'' 1500]"
    by (simp add: second_first_def Let_def)
  have h2: "0 < length ?xs" by simp
  have h3: "\<forall>j<0. finiteAmount (snd (range_order (second_first (Suc 0)) ?xs ! j))" by simp
  have h4: "\<not> finiteAmount (snd (range_order (second_first (Suc 0)) ?xs ! 0))"
    unfolding order by (simp add: utxo_def finiteAmount_def)
  have h5: "\<forall>n. 0 < n \<and> n \<le> 0 \<longrightarrow> \<not> word_sle 1864
      (totalSat (map snd (take n (range_order (second_first (Suc 0)) ?xs))))" by simp
  have c: "unspent (testConnector (Some ?xs)) = Some ?xs
      \<and> \<not> unspentSyncMtx (testConnector (Some ?xs)) \<and> \<not> coinSelectMtx (testConnector (Some ?xs))
      \<and> LockUnspent ?cl True [] (node (testConnector (Some ?xs))) = (None, 0)"
    by (simp add: test_defs)
  note inst = invalid_amount_is_returned [OF h1 h2 h3 h4 h5]
  note a = inst [THEN conjunct1] inst [THEN conjunct2, THEN conjunct1]
  note b = inst [THEN conjunct2, THEN conjunct2, THEN conjunct2, rule_format,
      where c = "testConnector (Some ?xs)" and cl = ?cl and ?n1.0 = 0, OF c]
  have "craftTransaction ?cl testHash est second_first 1 1000 destAddr
        (testConnector (Some ?xs))
      = (Returns (Inl (Errorf ''unable to select inputs: %v'' [ErrInvalidAmount])),
         (testConnector (Some ?xs))
           \<lparr>node := 0, rpcs := rpcs (testConnector (Some ?xs)) @ [CallLockUnspent True []]\<rparr>)"
    by (rule b)
  moreover have "rpcs (testConnector (Some ?xs)) = []" by (simp add: testConnector_def)
  ultimately show ?thesis using a by simp
qed

subsection \<open>syncUnspent replaces the cache\<close>

lemma syncUnspent_loop_finite:
  "\<forall>u \<in> set us. finiteAmount u \<Longrightarrow>
   syncUnspent_loop us m = (True, fold (\<lambda>u. AList.update (TxID u) u) us m)"
  by (induction us arbitrary: m) (simp_all add: Let_def)

lemma find_append_cases:
  "List.find P (xs @ ys) = (case List.find P xs of None \<Rightarrow> List.find P ys | Some x \<Rightarrow> Some x)"
  by (induction xs) simp_all

lemma map_of_fold_update:
  "map_of (fold (\<lambda>u. AList.update (TxID u) u) us m) t =
     (case List.find (\<lambda>u. TxID u = t) (rev us) of Some u \<Rightarrow> Some u | None \<Rightarrow> map_of m t)"
proof (induction us arbitrary: m)
  case Nil
  show ?case by simp
next
  case (Cons u us)
  show ?case
    by (simp add: Cons.IH find_append_cases AList.update_conv' split: option.splits)
qed

lemma distinct_fold_update:
  "distinct (map fst m) \<Longrightarrow> distinct (map fst (fold (\<lambda>u. AList.update (TxID u) u) us m))"
  by (induction us arbitrary: m) (simp_all add: AList.distinct_update)

lemma update_new_key: "k \<notin> fst ` set m \<Longrightarrow> AList.update k v m = m @ [(k, v)]"
  by (induction m) auto

lemma fold_update_distinct:
  "distinct (map TxID us) \<Longrightarrow> \<forall>u \<in> set us. TxID u \<notin> fst ` set m \<Longrightarrow>
   fold (\<lambda>u. AList.update (TxID u) u) us m = m @ map (\<lambda>u. (TxID u, u)) us"
proof (induction us arbitrary: m)
  case Nil
  show ?case by simp
next
  case (Cons u us)
  have new: "AList.update (TxID u) u m = m @ [(TxID u, u)]"
    using Cons.prems(2) by (simp add: update_new_key)
  have "\<forall>v \<in> set us. TxID v \<notin> fst ` set (m @ [(TxID u, u)])"
  proof
    fix v assume v: "v \<in> set us"
    from Cons.prems(1) have "TxID u \<notin> TxID ` set us" by simp
    with v have "TxID v \<noteq> TxID u" by (metis imageI)
    moreover from Cons.prems(2) v have "TxID v \<notin> fst ` set m" by simp
    ultimately show "TxID v \<notin> fst ` set (m @ [(TxID u, u)])" by simp
  qed
  with Cons.IH [of "m @ [(TxID u, u)]"] Cons.prems(1) new show ?case by simp
qed

text \<open>
  Claim C9, as amended. \<^verbatim>\<open>syncUnspent\<close>, entered with its mutex free, asks the node
  for the unspent outputs with at least the configured number of confirmations (and at
  most \<^verbatim>\<open>MaxInt32\<close>). When the node answers with an error, the function returns an
  error and the cache is the one it was. When the node answers with a list of outputs
  (of finite amounts), the function returns no error and the cache is replaced, whatever
  it held, by a map built from that list alone: it has one entry for each transaction
  id of the list, holding the last output listed under that id; so it holds all the
  listed outputs, in their order, when their transaction ids are distinct.
\<close>

theorem syncUnspent_replaces_cache:
  assumes free: "\<not> unspentSyncMtx c"
  shows "(\<forall>e n'. ListUnspentMinMax cl (MinConfirmations c) 2147483647 (node c) = (Inl e, n')
        \<longrightarrow> syncUnspent cl c
            = (Returns (Some (Errorf ''unable to list unspent: %v'' [])),
               c\<lparr>node := n',
                 rpcs := rpcs c @ [CallListUnspentMinMax (MinConfirmations c) 2147483647]\<rparr>))
    \<and> (\<forall>us n'. ListUnspentMinMax cl (MinConfirmations c) 2147483647 (node c) = (Inr us, n')
          \<and> (\<forall>u \<in> set us. finiteAmount u)
        \<longrightarrow> (\<exists>m. syncUnspent cl c
              = (Returns None,
                 c\<lparr>node := n',
                   rpcs := rpcs c @ [CallListUnspentMinMax (MinConfirmations c) 2147483647],
                   unspent := Some m\<rparr>)
            \<and> (\<forall>t. map_of m t = List.find (\<lambda>u. TxID u = t) (rev us))
            \<and> distinct (map fst m)
            \<and> (distinct (map TxID us) \<longrightarrow> m = map (\<lambda>u. (TxID u, u)) us)))"
proof (intro conjI allI impI)
  fix e n'
  assume "ListUnspentMinMax cl (MinConfirmations c) 2147483647 (node c) = (Inl e, n')"
  from syncUnspent_cases [OF free this]
  show "syncUnspent cl c
            = (Returns (Some (Errorf ''unable to list unspent: %v'' [])),
               c\<lparr>node := n',
                 rpcs := rpcs c @ [CallListUnspentMinMax (MinConfirmations c) 2147483647]\<rparr>)"
    by simp
next
  fix us n'
  assume a: "ListUnspentMinMax cl (MinConfirmations c) 2147483647 (node c) = (Inr us, n')
          \<and> (\<forall>u \<in> set us. finiteAmount u)"
  let ?m = "fold (\<lambda>u. AList.update (TxID u) u) us []"
  from a have loop: "syncUnspent_loop us [] = (True, ?m)"
    by (simp add: syncUnspent_loop_finite)
  from a have call: "ListUnspentMinMax cl (MinConfirmations c) 2147483647 (node c) = (Inr us, n')"
    by simp
  have run: "syncUnspent cl c
              = (Returns None,
                 c\<lparr>node := n',
                   rpcs := rpcs c @ [CallListUnspentMinMax (MinConfirmations c) 2147483647],
                   unspent := Some ?m\<rparr>)"
    using syncUnspent_cases [OF free call] loop by simp
  have look: "\<forall>t. map_of ?m t = List.find (\<lambda>u. TxID u = t) (rev us)"
    by (simp add: map_of_fold_update split: option.splits)
  have dist: "distinct (map fst ?m)" by (rule distinct_fold_update) simp
  have all: "distinct (map TxID us) \<longrightarrow> ?m = map (\<lambda>u. (TxID u, u)) us"
    using fold_update_distinct [of us "[]"] by simp
  from run look dist all
  show "\<exists>m. syncUnspent cl c
              = (Returns None,
                 c\<lparr>node := n',
                   rpcs := rpcs c @ [CallListUnspentMinMax (MinConfirmations c) 2147483647],
                   unspent := Some m\<rparr>)
            \<and> (\<forall>t. map_of m t = List.find (\<lambda>u. TxID u = t) (rev us))
            \<and> distinct (map fst m)
            \<and> (distinct (map TxID us) \<longrightarrow> m = map (\<lambda>u. (TxID u, u)) us)"
    by (intro exI [of _ ?m] conjI)
qed

theorem syncUnspent_replaces_cache_witness:
  "syncUnspent (testClient False None (Inr [snd (utxo ''a'' 5), snd (utxo ''b'' 3)])
       (Inr nodeAddr) False) (testConnector (Some [utxo ''z'' 9]))
     = (Returns None,
        (testConnector (Some [utxo ''z'' 9]))
          \<lparr>rpcs := [CallListUnspentMinMax 1 2147483647],
           unspent := Some [utxo ''a'' 5, utxo ''b'' 3]\<rparr>)
   \<and> syncUnspent (testClient False None (Inl (RpcError ''list'')) (Inr nodeAddr) False)
       (testConnector (Some [utxo ''z'' 9]))
     = (Returns (Some (Errorf ''unable to list unspent: %v'' [])),
        (testConnector (Some [utxo ''z'' 9]))\<lparr>rpcs := [CallListUnspentMinMax 1 2147483647]\<rparr>)"
proof -
  let ?c = "testConnector (Some [utxo ''z'' 9])"
  let ?us = "[snd (utxo ''a'' 5), snd (utxo ''b'' 3)]"
  let ?ok = "testClient False None (Inr ?us) (Inr nodeAddr) False"
  let ?bad = "testClient False None (Inl (RpcError ''list'')) (Inr nodeAddr) False"
  have free: "\<not> unspentSyncMtx ?c" by (simp add: testConnector_def)
  have fields: "MinConfirmations ?c = 1" "node ?c = 0" "rpcs ?c = []"
    by (simp_all add: testConnector_def)
  have bad: "ListUnspentMinMax ?bad (MinConfirmations ?c) 2147483647 (node ?c)
      = (Inl (RpcError ''list''), 0)"
    by (simp add: test_defs)
  have ok: "ListUnspentMinMax ?ok (MinConfirmations ?c) 2147483647 (node ?c) = (Inr ?us, 0)
      \<and> (\<forall>u \<in> set ?us. finiteAmount u)"
    by (simp add: test_defs utxo_def finiteAmount_def)
  have dist: "distinct (map TxID ?us)" by (simp add: utxo_def)
  have pairs: "map (\<lambda>u. (TxID u, u)) ?us = [utxo ''a'' 5, utxo ''b'' 3]"
    by (simp add: utxo_def)
  note failure = syncUnspent_replaces_cache [OF free, of ?bad, THEN conjunct1, rule_format, OF bad]
  note success = syncUnspent_replaces_cache [OF free, of ?ok, THEN conjunct2, rule_format, OF ok]
  from success obtain m where
    run: "syncUnspent ?ok ?c = (Returns None,
        ?c\<lparr>node := 0,
           rpcs := rpcs ?c @ [CallListUnspentMinMax (MinConfirmations ?c) 2147483647],
           unspent := Some m\<rparr>)"
    and all: "distinct (map TxID ?us) \<longrightarrow> m = map (\<lambda>u. (TxID u, u)) ?us"
    by blast
  from all dist pairs have m: "m = [utxo ''a'' 5, utxo ''b'' 3]" by simp
  have same: "?c\<lparr>node := 0\<rparr> = ?c" by (simp add: testConnector_def)
  have "syncUnspent ?ok ?c = (Returns None,
        ?c\<lparr>rpcs := [CallListUnspentMinMax 1 2147483647],
           unspent := Some [utxo ''a'' 5, utxo ''b'' 3]\<rparr>)"
    using run unfolding m fields by (simp add: testConnector_def)
  moreover have "syncUnspent ?bad ?c
     = (Returns (Some (Errorf ''unable to list unspent: %v'' [])),
        ?c\<lparr>rpcs := [CallListUnspentMinMax 1 2147483647]\<rparr>)"
    using failure unfolding fields by (simp add: testConnector_def)
  ultimately show ?thesis by (rule conjI)
qed

text \<open>
  The claim as stated fails when the node lists two outputs of one transaction: the
  cache is keyed by the transaction id alone, so the second output takes the place of
  the first, and the cache holds one of the two.
\<close>

theorem syncUnspent_drops_output_of_same_transaction:
  "unspent (snd (syncUnspent
       (testClient False None
          (Inr [snd (utxo ''a'' 5), (snd (utxo ''a'' 3))\<lparr>Vout := 1\<rparr>]) (Inr nodeAddr) False)
       (testConnector None)))
     = Some [(''a'', (snd (utxo ''a'' 3))\<lparr>Vout := 1\<rparr>)]"
  by (simp add: syncUnspent_def mutex_defs call_defs test_defs Let_def utxo_def
      finiteAmount_def)

subsection \<open>The calls made to the node\<close>







lemma lock_inputs_result:
  "lock_inputs cl nh sel inputs c = (Inr inputs', c') \<Longrightarrow>
   inputs' = inputs @ map (\<lambda>u. TransactionInput (TxID u) (Vout u)) sel"
proof (induction sel arbitrary: inputs c)
  case Nil
  then show ?case by simp
next
  case (Cons u sel)
  show ?case
  proof (cases "nh (TxID u)")
    case (Inl e)
    with Cons.prems show ?thesis by simp
  next
    case (Inr txid)
    obtain e c1 where call: "call_LockUnspent cl False [OutPoint txid (Vout u)] c = (e, c1)"
      by (cases "call_LockUnspent cl False [OutPoint txid (Vout u)] c")
    show ?thesis
    proof (cases e)
      case (Some err)
      with Cons.prems Inr call show ?thesis by simp
    next
      case None
      with Cons.prems Inr call
      have "lock_inputs cl nh sel (inputs @ [TransactionInput (TxID u) (Vout u)]) c1
          = (Inr inputs', c')"
        by simp
      from Cons.IH [OF this] show ?thesis by simp
    qed
  qed
qed

lemma craft_remove_rpcs: "rpcs (snd (craft_remove sel tx fee c)) = rpcs c"
  by (simp add: craft_remove_def mutex_defs Let_def)

text \<open>What the assembly of the transaction adds to the log.\<close>

lemma craft_create_rpcs:
  "rpcs (snd (case call_CreateRawTransaction cl inputs outputs 0 c of
              (Inl err, c') \<Rightarrow> (Returns (Inl err), c')
            | (Inr tx, c') \<Rightarrow> craft_remove sel tx fee c'))
   = rpcs c @ [CallCreateRawTransaction inputs outputs 0]"
proof -
  obtain r c1 where call: "call_CreateRawTransaction cl inputs outputs 0 c = (r, c1)"
    by (cases "call_CreateRawTransaction cl inputs outputs 0 c")
  from call_CreateRawTransaction_frame [OF call] show ?thesis
    unfolding call by (cases r) (simp_all add: craft_remove_rpcs)
qed

lemma craft_assemble_no_change:
  "rpcs (snd (craft_assemble cl amt address sel 0 fee inputs c))
   = rpcs c @ [CallCreateRawTransaction inputs [(address, amt)] 0]"
  by (simp add: craft_assemble_def Let_def craft_create_rpcs)

lemma craft_assemble_address_error:
  assumes "change \<noteq> 0" and "GetNewAddress cl [] (node c) = (Inl e, n)"
  shows "craft_assemble cl amt address sel change fee inputs c
   = (Returns (Inl e), c\<lparr>node := n, rpcs := rpcs c @ [CallGetNewAddress []]\<rparr>)"
  using assms by (simp add: craft_assemble_def Let_def call_defs)

lemma craft_assemble_change:
  assumes "change \<noteq> 0" and "GetNewAddress cl [] (node c) = (Inr a, n)"
  shows "rpcs (snd (craft_assemble cl amt address sel change fee inputs c))
   = rpcs c @ [CallGetNewAddress [],
       CallCreateRawTransaction inputs
         (if a = address then [(address, change)] else [(address, amt), (a, change)]) 0]"
  using assms
  by (simp add: craft_assemble_def Let_def call_GetNewAddress_def craft_create_rpcs)



lemma deferred_unlock:
  "fst (case p of
         (Returns r, c') \<Rightarrow> (Returns r, c'\<lparr>coinSelectMtx := False\<rparr>)
       | (Panics, c') \<Rightarrow> (Panics, c'\<lparr>coinSelectMtx := False\<rparr>)
       | (Fatal, c') \<Rightarrow> (Fatal, c')
       | (NeverReturns, c') \<Rightarrow> (NeverReturns, c')) = fst p"
  "rpcs (snd (case p of
         (Returns r, c') \<Rightarrow> (Returns r, c'\<lparr>coinSelectMtx := False\<rparr>)
       | (Panics, c') \<Rightarrow> (Panics, c'\<lparr>coinSelectMtx := False\<rparr>)
       | (Fatal, c') \<Rightarrow> (Fatal, c')
       | (NeverReturns, c') \<Rightarrow> (NeverReturns, c'))) = rpcs (snd p)"
  by (cases p; cases "fst p"; simp)+

lemma craftTransaction_unlocked:
  assumes "\<not> coinSelectMtx c"
    and "call_LockUnspent cl True [] (c\<lparr>coinSelectMtx := True\<rparr>) = (None, c2)"
  shows "craftTransaction cl nh twe ord R amt address c =
    (case craft_cache cl nh twe ord R amt address c2 of
         (Returns r, c') \<Rightarrow> (Returns r, c'\<lparr>coinSelectMtx := False\<rparr>)
       | (Panics, c') \<Rightarrow> (Panics, c'\<lparr>coinSelectMtx := False\<rparr>)
       | (Fatal, c') \<Rightarrow> (Fatal, c')
       | (NeverReturns, c') \<Rightarrow> (NeverReturns, c'))"
  using assms by (simp add: craftTransaction_def mutex_defs)



text \<open>
  After a \<^verbatim>\<open>syncUnspent\<close> that succeeded, \<^verbatim>\<open>craftTransaction\<close> unlocks
  \<^verbatim>\<open>unspentSyncMtx\<close> once more (line 135), though it has unlocked it before the
  call (line 129) and \<^verbatim>\<open>syncUnspent\<close> has released its own lock: the mutex is not
  held, and the run ends in the fatal error of the Go runtime, before any selection.
\<close>

lemma craftTransaction_fatal_after_sync:
  assumes nil: "unspent c = None"
    and free: "\<not> unspentSyncMtx c" "\<not> coinSelectMtx c"
    and unlock: "LockUnspent cl True [] (node c) = (None, n1)"
    and list: "ListUnspentMinMax cl (MinConfirmations c) 2147483647 n1 = (Inr us, n2)"
    and finite: "\<forall>u \<in> set us. finiteAmount u"
  shows "fst (craftTransaction cl nh twe ord R amt address c) = Fatal"
proof -
  let ?c2 = "c\<lparr>coinSelectMtx := True, node := n1, rpcs := rpcs c @ [CallLockUnspent True []]\<rparr>"
  have call: "call_LockUnspent cl True [] (c\<lparr>coinSelectMtx := True\<rparr>) = (None, ?c2)"
    using unlock by (simp add: call_LockUnspent_def)
  have c2: "unspent ?c2 = None" "\<not> unspentSyncMtx ?c2"
    "ListUnspentMinMax cl (MinConfirmations ?c2) 2147483647 (node ?c2) = (Inr us, n2)"
    using nil free list by simp_all
  show ?thesis
    unfolding craftTransaction_unlocked [OF free(2) call] deferred_unlock
      craft_cache_uninitialised [OF c2]
    using finite by (simp add: syncUnspent_loop_finite)
qed

subsection \<open>When the cache is synced\<close>




subsection \<open>The change output\<close>

lemma craftTransaction_selected:
  assumes cache: "unspent c = Some xs"
    and free: "\<not> unspentSyncMtx c" "\<not> coinSelectMtx c"
    and unlock: "LockUnspent cl True [] (node c) = (None, n1)"
    and sel: "coinSelect twe ord R amt xs = Some (Inr (sel, change, fee))"
    and locks: "lock_inputs cl nh sel []
        (c\<lparr>coinSelectMtx := True, node := n1, rpcs := rpcs c @ [CallLockUnspent True []]\<rparr>)
        = (Inr inputs, c3)"
  shows "fst (craftTransaction cl nh twe ord R amt address c)
      = fst (craft_assemble cl amt address sel change fee inputs c3)"
    and "rpcs (snd (craftTransaction cl nh twe ord R amt address c))
      = rpcs (snd (craft_assemble cl amt address sel change fee inputs c3))"
proof -
  let ?c2 = "c\<lparr>coinSelectMtx := True, node := n1, rpcs := rpcs c @ [CallLockUnspent True []]\<rparr>"
  have call: "call_LockUnspent cl True [] (c\<lparr>coinSelectMtx := True\<rparr>) = (None, ?c2)"
    using unlock by (simp add: call_LockUnspent_def)
  have c2: "unspent ?c2 = Some xs" "\<not> unspentSyncMtx ?c2"
    using cache free by simp_all
  have select: "craft_select cl nh twe ord R amt address ?c2
      = craft_assemble cl amt address sel change fee inputs c3"
    using c2 sel locks free by (simp add: craft_select_def mutex_defs)
  note run = craftTransaction_unlocked [OF free(2) call, of nh twe ord R amt address]
  show "fst (craftTransaction cl nh twe ord R amt address c)
      = fst (craft_assemble cl amt address sel change fee inputs c3)"
    unfolding run craft_cache_initialised [OF c2] select by (rule deferred_unlock)
  show "rpcs (snd (craftTransaction cl nh twe ord R amt address c))
      = rpcs (snd (craft_assemble cl amt address sel change fee inputs c3))"
    unfolding run craft_cache_initialised [OF c2] select by (rule deferred_unlock)
qed

lemma example_negative_change:
  "coinSelect est ord 10675199116730065 100000000 [utxo ''a'' 200000000]
     = Some (Inr ([snd (utxo ''a'' 200000000)],
                  - 9223372036754776160, - 9223372036854775456))"
  unfolding coinSelect_def
  apply (subst coinSelect_loop.simps)
  apply (simp add: selectInputs_def NewAmount_def requiredFee_est utxo_def Let_def)
  done

lemma test_addresses_differ:
  "destAddr \<noteq> nodeAddr" "destAddr \<noteq> destCopy" "nodeAddr \<noteq> destAddr" "destCopy \<noteq> destAddr"
  by (simp_all add: destAddr_def nodeAddr_def destCopy_def)

text \<open>
  Claim C8, as amended. In a call of \<^verbatim>\<open>craftTransaction\<close> whose selection
  succeeds, in whatever orders its rounds have visited the cache, and whose selected
  outputs are all locked, the inputs passed on are the selected outputs, in order, and a
  change output is added exactly when \<^verbatim>\<open>changeAmt\<close> is not zero. When it is zero,
  the next and last call to the node is the assembly with the destination output alone.
  When it is not zero, the next call asks the node for a new address; if that fails the
  call returns the error; otherwise the last call is the assembly with the destination
  output and an output of \<^verbatim>\<open>changeAmt\<close> to the new address. The two outputs are
  two entries of the map unless the node has answered with the very interface value of
  the destination, which is then one key of the map, holding \<^verbatim>\<open>changeAmt\<close>.
\<close>

theorem craftTransaction_change_output:
  assumes cache: "unspent c = Some xs"
    and free: "\<not> unspentSyncMtx c" "\<not> coinSelectMtx c"
    and unlock: "LockUnspent cl True [] (node c) = (None, n1)"
    and sel: "coinSelect twe ord R amt xs = Some (Inr (sel, change, fee))"
    and locks: "lock_inputs cl nh sel []
        (c\<lparr>coinSelectMtx := True, node := n1, rpcs := rpcs c @ [CallLockUnspent True []]\<rparr>)
        = (Inr inputs, c3)"
  shows "inputs = map (\<lambda>u. TransactionInput (TxID u) (Vout u)) sel
    \<and> (change = 0 \<longrightarrow>
          new_rpcs c3 (snd (craftTransaction cl nh twe ord R amt address c))
            = [CallCreateRawTransaction inputs [(address, amt)] 0])
    \<and> (change \<noteq> 0 \<longrightarrow>
          (\<forall>e n. GetNewAddress cl [] (node c3) = (Inl e, n) \<longrightarrow>
             new_rpcs c3 (snd (craftTransaction cl nh twe ord R amt address c))
               = [CallGetNewAddress []]
             \<and> fst (craftTransaction cl nh twe ord R amt address c) = Returns (Inl e))
        \<and> (\<forall>a n. GetNewAddress cl [] (node c3) = (Inr a, n) \<longrightarrow>
             new_rpcs c3 (snd (craftTransaction cl nh twe ord R amt address c))
               = [CallGetNewAddress [],
                  CallCreateRawTransaction inputs
                    (if a = address then [(address, change)]
                     else [(address, amt), (a, change)]) 0]))"
proof -
  note run = craftTransaction_selected [OF cache free unlock sel locks, of address]
  from lock_inputs_result [OF locks]
  have inputs: "inputs = map (\<lambda>u. TransactionInput (TxID u) (Vout u)) sel" by simp
  have none: "new_rpcs c3 (snd (craftTransaction cl nh twe ord R amt address c))
            = [CallCreateRawTransaction inputs [(address, amt)] 0]" if "change = 0"
    using that by (simp add: new_rpcs_def run(2) craft_assemble_no_change)
  have err: "new_rpcs c3 (snd (craftTransaction cl nh twe ord R amt address c))
               = [CallGetNewAddress []]
             \<and> fst (craftTransaction cl nh twe ord R amt address c) = Returns (Inl e)"
    if "change \<noteq> 0" "GetNewAddress cl [] (node c3) = (Inl e, n)" for e n
    by (simp add: new_rpcs_def run craft_assemble_address_error [OF that])
  have some: "new_rpcs c3 (snd (craftTransaction cl nh twe ord R amt address c))
               = [CallGetNewAddress [],
                  CallCreateRawTransaction inputs
                    (if a = address then [(address, change)]
                     else [(address, amt), (a, change)]) 0]"
    if "change \<noteq> 0" "GetNewAddress cl [] (node c3) = (Inr a, n)" for a n
    by (simp only: new_rpcs_def run(2) craft_assemble_change [OF that] append_eq_conv_conj
        drop_append drop_all)
      simp
  show ?thesis
  proof (intro conjI impI allI)
    show "inputs = map (\<lambda>u. TransactionInput (TxID u) (Vout u)) sel" by (rule inputs)
  next
    assume "change = 0"
    then show "new_rpcs c3 (snd (craftTransaction cl nh twe ord R amt address c))
            = [CallCreateRawTransaction inputs [(address, amt)] 0]" by (rule none)
  next
    fix e n
    assume "change \<noteq> 0" "GetNewAddress cl [] (node c3) = (Inl e, n)"
    then show "new_rpcs c3 (snd (craftTransaction cl nh twe ord R amt address c))
               = [CallGetNewAddress []]" by (rule err [THEN conjunct1])
  next
    fix e n
    assume "change \<noteq> 0" "GetNewAddress cl [] (node c3) = (Inl e, n)"
    then show "fst (craftTransaction cl nh twe ord R amt address c) = Returns (Inl e)"
      by (rule err [THEN conjunct2])
  next
    fix a n
    assume "change \<noteq> 0" "GetNewAddress cl [] (node c3) = (Inr a, n)"
    then show "new_rpcs c3 (snd (craftTransaction cl nh twe ord R amt address c))
               = [CallGetNewAddress [],
                  CallCreateRawTransaction inputs
                    (if a = address then [(address, change)]
                     else [(address, amt), (a, change)]) 0]" by (rule some)
  qed
qed

text \<open>
  Three runs: a selection of two rounds, in two orders, with a change of 1344 satoshis
  to the address of the node; the same with a node whose new address has the text of
  the destination and is another object, which makes two outputs; and a selection with
  no change.
\<close>

theorem craftTransaction_change_output_witness:
  "new_rpcs
      ((testConnector (Some [utxo ''a'' 100, utxo ''b'' 1900, utxo ''c'' 1900]))
         \<lparr>coinSelectMtx := True, node := 2,
          rpcs := [CallLockUnspent True [], CallLockUnspent False [OutPoint ''b'' 0],
                   CallLockUnspent False [OutPoint ''c'' 0]]\<rparr>)
      (snd (craftTransaction (testClient False None (Inr []) (Inr nodeAddr) False)
         testHash est second_first 1 1000 destAddr
         (testConnector (Some [utxo ''a'' 100, utxo ''b'' 1900, utxo ''c'' 1900]))))
     = [CallGetNewAddress [],
        CallCreateRawTransaction [TransactionInput ''b'' 0, TransactionInput ''c'' 0]
          [(destAddr, 1000), (nodeAddr, 1344)] 0]
   \<and> new_rpcs
      ((testConnector (Some [utxo ''a'' 100, utxo ''b'' 1900, utxo ''c'' 1900]))
         \<lparr>coinSelectMtx := True, node := 2,
          rpcs := [CallLockUnspent True [], CallLockUnspent False [OutPoint ''b'' 0],
                   CallLockUnspent False [OutPoint ''c'' 0]]\<rparr>)
      (snd (craftTransaction (testClient False None (Inr []) (Inr destCopy) False)
         testHash est second_first 1 1000 destAddr
         (testConnector (Some [utxo ''a'' 100, utxo ''b'' 1900, utxo ''c'' 1900]))))
     = [CallGetNewAddress [],
        CallCreateRawTransaction [TransactionInput ''b'' 0, TransactionInput ''c'' 0]
          [(destAddr, 1000), (destCopy, 1344)] 0]
   \<and> new_rpcs
      ((testConnector (Some [utxo ''a'' 1864]))
         \<lparr>coinSelectMtx := True, node := 1,
          rpcs := [CallLockUnspent True [], CallLockUnspent False [OutPoint ''a'' 0]]\<rparr>)
      (snd (craftTransaction (testClient False None (Inr []) (Inr nodeAddr) False)
         testHash est listed 1 1000 destAddr (testConnector (Some [utxo ''a'' 1864]))))
     = [CallCreateRawTransaction [TransactionInput ''a'' 0] [(destAddr, 1000)] 0]"
proof -
  let ?cl = "\<lambda>a. testClient False None (Inr []) (Inr a) False"
  let ?c = "testConnector (Some [utxo ''a'' 100, utxo ''b'' 1900, utxo ''c'' 1900])"
  let ?c3 = "?c\<lparr>coinSelectMtx := True, node := 2,
          rpcs := [CallLockUnspent True [], CallLockUnspent False [OutPoint ''b'' 0],
                   CallLockUnspent False [OutPoint ''c'' 0]]\<rparr>"
  let ?d = "testConnector (Some [utxo ''a'' 1864])"
  let ?d3 = "?d\<lparr>coinSelectMtx := True, node := 1,
          rpcs := [CallLockUnspent True [], CallLockUnspent False [OutPoint ''a'' 0]]\<rparr>"
  have free: "\<not> unspentSyncMtx (testConnector cache)" "\<not> coinSelectMtx (testConnector cache)"
    for cache by (simp_all add: testConnector_def)
  have unlock: "LockUnspent (?cl a) True [] (node (testConnector cache)) = (None, 0)"
    for a cache by (simp add: test_defs)
  have cache: "unspent (testConnector (Some xs)) = Some xs" for xs
    by (simp add: testConnector_def)
  have locks_c: "lock_inputs (?cl a) testHash [snd (utxo ''b'' 1900), snd (utxo ''c'' 1900)] []
      (?c\<lparr>coinSelectMtx := True, node := 0, rpcs := rpcs ?c @ [CallLockUnspent True []]\<rparr>)
      = (Inr [TransactionInput ''b'' 0, TransactionInput ''c'' 0], ?c3)" for a
    by (simp add: call_defs test_defs utxo_def)
  have locks_d: "lock_inputs (?cl nodeAddr) testHash [snd (utxo ''a'' 1864)] []
      (?d\<lparr>coinSelectMtx := True, node := 0, rpcs := rpcs ?d @ [CallLockUnspent True []]\<rparr>)
      = (Inr [TransactionInput ''a'' 0], ?d3)"
    by (simp add: call_defs test_defs utxo_def)
  have addr: "GetNewAddress (?cl a) [] (node ?c3) = (Inr a, 2)" for a
    by (simp add: test_defs)
  have nz: "(1344 :: 64 word) \<noteq> 0" by simp
  note a1 = craftTransaction_change_output [where cl = "?cl nodeAddr" and address = destAddr,
      OF cache free unlock example_orders_differ locks_c,
      THEN conjunct2, THEN conjunct2, rule_format, OF nz, THEN conjunct2, rule_format, OF addr]
  note a2 = craftTransaction_change_output [where cl = "?cl destCopy" and address = destAddr,
      OF cache free unlock example_orders_differ locks_c,
      THEN conjunct2, THEN conjunct2, rule_format, OF nz, THEN conjunct2, rule_format, OF addr]
  note b = craftTransaction_change_output [where address = destAddr,
      OF cache free unlock example_no_change locks_d,
      THEN conjunct2, THEN conjunct1, rule_format, OF refl]
  from a1 a2 b show ?thesis by (simp add: test_addresses_differ)
qed

text \<open>
  Whatever the estimator and the orders of iteration, provided the weight for one input
  and two outputs is between 1 and 100000000, there is a fee rate at which the
  transaction assembled for a target of one bitcoin from one output of two has a change
  output of a negative amount.
\<close>

lemma negative_change_output_any_estimator:
  assumes W: "weightEstimate twe 1 = W" and pos: "0 < W" and small: "W \<le> 100000000"
  shows "\<exists>change fee. sint change < 0
      \<and> fst (craftTransaction (testClient False None (Inr []) (Inr nodeAddr) False)
           testHash twe ord (word_of_int ((2 ^ 63 + W - 1) div W)) 100000000 destAddr
           (testConnector (Some [utxo ''a'' 200000000])))
        = Returns (Inr (([TransactionInput ''a'' 0],
                         [(destAddr, 100000000), (nodeAddr, change)]), fee))"
proof -
  define R :: "64 word" where "R = word_of_int ((2 ^ 63 + W - 1) div W)"
  from negative_change_any_estimator [OF assms, of ord] obtain change fee where
    sel: "coinSelect twe ord R 100000000 [utxo ''a'' 200000000]
        = Some (Inr ([snd (utxo ''a'' 200000000)], change, fee))"
    and neg: "sint change < 0" unfolding R_def by blast
  from neg have nz: "change \<noteq> 0" by auto
  have "fst (craftTransaction (testClient False None (Inr []) (Inr nodeAddr) False)
           testHash twe ord R 100000000 destAddr
           (testConnector (Some [utxo ''a'' 200000000])))
        = Returns (Inr (([TransactionInput ''a'' 0],
                         [(destAddr, 100000000), (nodeAddr, change)]), fee))"
    using nz
    by (simp add: craft_defs mutex_defs call_defs test_defs sel Let_def test_addresses_differ)
      (simp add: utxo_def)
  with neg show ?thesis unfolding R_def by blast
qed

text \<open>
  The claim as stated, with a change output exactly when \<^verbatim>\<open>changeAmt\<close> is above
  zero, fails where the change is negative: the source tests \<^verbatim>\<open>changeAmt != 0\<close>.
  At the fee rate 10675199116730065 the selection returns a negative change, whatever
  the orders of iteration, and the assembled transaction has a change output of that
  negative amount.
\<close>

theorem craftTransaction_negative_change_output:
  "(\<forall>ord. fst (craftTransaction (testClient False None (Inr []) (Inr nodeAddr) False)
       testHash est ord 10675199116730065 100000000 destAddr
       (testConnector (Some [utxo ''a'' 200000000])))
     = Returns (Inr (([TransactionInput ''a'' 0],
                      [(destAddr, 100000000), (nodeAddr, - 9223372036754776160)]),
                     - 9223372036854775456)))
   \<and> sint (- 9223372036754776160 :: 64 word) < 0"
  by (simp add: craft_defs mutex_defs call_defs test_defs example_negative_change Let_def
      test_addresses_differ)
    (simp add: utxo_def)

end
